(* ===== verification/Prelude.thy ===== *)
theory Prelude
  imports
    Main
    "HOL-Library.Word"
    "HOL-Library.AList"
    "HOL-Library.Multiset"
    "HOL-Library.List_Lexorder"
    "HOL-Library.Char_ord"
    "HOL-Library.Product_Lexorder"
begin

text \<open>
  Shared vocabulary of the development: names for the Go types the program uses,
  Go's 64-bit signed arithmetic on \<open>time.Duration\<close>, Go's built-in maps with the interface
  the rest of the development relies on, and Go's \<open>sort.SliceStable\<close>.
  Everything here is part of the Go language or its standard library, not of the
  repository, so nothing in this theory is mapped to a source line.
\<close>

named_theorems gomap_simps \<open>laws of Go maps as association lists\<close>
named_theorems table_simps \<open>behaviour of the routing table operations\<close>
named_theorems wf_intros \<open>well-formedness is kept\<close>

section \<open>Go types\<close>

type_synonym u16 = "16 word"
type_synonym u64 = "64 word"

text \<open>An \<open>error\<close> is represented by the text \<open>err.Error()\<close> returns; \<open>nil\<close> is \<open>None\<close>.\<close>

type_synonym go_error = string

text \<open>Instants and durations are counted in nanoseconds.\<close>

type_synonym time = int
type_synonym duration = int

section \<open>Signed 64-bit arithmetic\<close>

definition wrap64 :: "int \<Rightarrow> int" where
  "wrap64 x = signed_take_bit 63 x"

definition int64_min :: int where "int64_min = - (2 ^ 63)"
definition int64_max :: int where "int64_max = 2 ^ 63 - 1"

definition second :: duration where "second = 1000000000"

lemma wrap64_id: "int64_min \<le> x \<Longrightarrow> x \<le> int64_max \<Longrightarrow> wrap64 x = x"
  unfolding wrap64_def int64_min_def int64_max_def
  by (rule signed_take_bit_int_eq_self) simp_all

lemma wrap64_bounds: "int64_min \<le> wrap64 x \<and> wrap64 x \<le> int64_max"
  using signed_take_bit_int_greater_eq_minus_exp [of 63 x] signed_take_bit_int_less_exp [of 63 x]
  unfolding wrap64_def int64_min_def int64_max_def by linarith

text \<open>\<open>time.Duration(n)\<close> of an \<open>int\<close>, negated and multiplied by \<open>time.Second\<close>,
  each operation at the width of \<open>int64\<close>.\<close>

definition neg_seconds :: "int \<Rightarrow> duration" where
  "neg_seconds n = wrap64 (wrap64 (- n) * second)"

lemma neg_seconds_exact:
  "\<bar>n\<bar> \<le> 9223372036 \<Longrightarrow> neg_seconds n = - n * second"
  unfolding neg_seconds_def second_def
  by (subst wrap64_id; (simp add: int64_min_def int64_max_def abs_le_iff)?)+

section \<open>Go maps\<close>

text \<open>
  A Go map is a finite partial function whose \<open>range\<close> loop visits the keys in an
  order the language leaves open. It is an association list with distinct keys: the
  list is the finite function together with the order the next \<open>range\<close> takes, so a
  statement about every list with the same content covers every order.
\<close>

type_synonym ('k, 'v) gomap = "('k \<times> 'v) list"

definition gm_empty :: "('k, 'v) gomap" where "gm_empty = []"
definition gm_get :: "('k, 'v) gomap \<Rightarrow> 'k \<Rightarrow> 'v option" where "gm_get m k = map_of m k"
definition gm_put :: "'k \<Rightarrow> 'v \<Rightarrow> ('k, 'v) gomap \<Rightarrow> ('k, 'v) gomap" where
  "gm_put k v m = AList.update k v m"
definition gm_del :: "'k \<Rightarrow> ('k, 'v) gomap \<Rightarrow> ('k, 'v) gomap" where
  "gm_del k m = AList.delete k m"
definition gm_len :: "('k, 'v) gomap \<Rightarrow> nat" where "gm_len m = length m"
definition gm_keys :: "('k, 'v) gomap \<Rightarrow> 'k list" where "gm_keys m = map fst m"
definition gm_ok :: "('k, 'v) gomap \<Rightarrow> bool" where "gm_ok m \<longleftrightarrow> distinct (map fst m)"

text \<open>Two lists are orders of the same Go map.\<close>

definition gm_same :: "('k, 'v) gomap \<Rightarrow> ('k, 'v) gomap \<Rightarrow> bool" where
  "gm_same m n \<longleftrightarrow> gm_ok m \<and> gm_ok n \<and> mset m = mset n"


text \<open>
  The interface of a Go map that the components rely on: what a lookup returns after a
  write or a \<open>delete\<close>, and that \<open>len\<close> counts the keys.
\<close>

locale gomap_iface =
  fixes empty :: 'm
    and put :: "'k \<Rightarrow> 'v \<Rightarrow> 'm \<Rightarrow> 'm"
    and del :: "'k \<Rightarrow> 'm \<Rightarrow> 'm"
    and get :: "'m \<Rightarrow> 'k \<Rightarrow> 'v option"
    and len :: "'m \<Rightarrow> nat"
    and ok :: "'m \<Rightarrow> bool"
  assumes get_empty: "get empty = Map.empty"
    and get_put: "get (put k v m) = (get m)(k \<mapsto> v)"
    and get_del: "get (del k m) = (get m)(k := None)"
    and ok_empty: "ok empty"
    and ok_put: "ok m \<Longrightarrow> ok (put k v m)"
    and ok_del: "ok m \<Longrightarrow> ok (del k m)"
    and finite_get: "finite (dom (get m))"
    and len_card: "ok m \<Longrightarrow> len m = card (dom (get m))"
begin

lemma len_empty: "len empty = 0"
  by (simp add: len_card ok_empty get_empty)

lemma len_put: "ok m \<Longrightarrow> len (put k v m) = (if get m k = None then Suc (len m) else len m)"
  by (auto simp: len_card ok_put get_put finite_get insert_absorb domIff card_insert_if)

lemma len_del: "ok m \<Longrightarrow> len (del k m) = (if get m k = None then len m else len m - 1)"
  by (auto simp: len_card ok_del get_del finite_get card_Diff_singleton_if domIff)

lemma len_zero_iff: "ok m \<Longrightarrow> len m = 0 \<longleftrightarrow> get m = Map.empty"
  by (simp add: len_card finite_get)

lemma len_mono: "ok m \<Longrightarrow> ok n \<Longrightarrow> dom (get m) \<subseteq> dom (get n) \<Longrightarrow> len m \<le> len n"
  by (simp add: len_card card_mono finite_get)

text \<open>A map that extends another in its keys has the same length exactly when it has the
  same keys.\<close>

lemma len_eq_iff_keys:
  assumes "ok m" and "ok n" and "dom (get m) \<subseteq> dom (get n)"
  shows "len m = len n \<longleftrightarrow> dom (get m) = dom (get n)"
  using assms by (auto simp: len_card dest: card_subset_eq [OF finite_get])

end

lemma map_of_dom_finite: "finite (dom (map_of m))"
  by (rule finite_dom_map_of)

interpretation gm: gomap_iface gm_empty gm_put gm_del gm_get gm_len gm_ok
proof unfold_locales
  show "gm_get gm_empty = Map.empty"
    by (simp add: gm_get_def gm_empty_def fun_eq_iff)
  show "gm_get (gm_put k v m) = (gm_get m)(k \<mapsto> v)" for k :: 'a and v :: 'b and m
    by (simp add: gm_get_def gm_put_def update_conv' fun_eq_iff)
  show "gm_get (gm_del k m) = (gm_get m)(k := None)" for k :: 'a and m :: "('a \<times> 'b) list"
    by (simp add: gm_get_def gm_del_def delete_conv' fun_eq_iff)
  show "gm_ok gm_empty"
    by (simp add: gm_ok_def gm_empty_def)
  show "gm_ok m \<Longrightarrow> gm_ok (gm_put k v m)" for k :: 'a and v :: 'b and m
    by (simp add: gm_ok_def gm_put_def distinct_update)
  show "gm_ok m \<Longrightarrow> gm_ok (gm_del k m)" for k :: 'a and m :: "('a \<times> 'b) list"
    by (simp add: gm_ok_def gm_del_def distinct_delete)
  show "finite (dom (gm_get m))" for m :: "('a \<times> 'b) list"
    by (simp add: gm_get_def [abs_def] map_of_dom_finite)
  show "gm_ok m \<Longrightarrow> gm_len m = card (dom (gm_get m))" for m :: "('a \<times> 'b) list"
    by (simp add: gm_ok_def gm_len_def gm_get_def [abs_def] dom_map_of_conv_image_fst
        distinct_card flip: set_map)
qed

lemmas gm_laws [simp, gomap_simps] =
  gm.get_empty gm.get_put gm.get_del gm.len_empty

lemmas gm_ok_intros [simp, intro, wf_intros] = gm.ok_empty gm.ok_put gm.ok_del

lemma gm_ok_Nil [simp]: "gm_ok []" and gm_ok_Cons [simp]:
  "gm_ok ((k, v) # m) \<longleftrightarrow> k \<notin> fst ` set m \<and> gm_ok m"
  by (auto simp: gm_ok_def)

lemma gm_get_Nil [simp]: "gm_get [] k = None" and gm_get_Cons [simp]:
  "gm_get ((j, v) # m) k = (if k = j then Some v else gm_get m k)"
  by (auto simp: gm_get_def)

lemma gm_get_SomeD: "gm_get m k = Some v \<Longrightarrow> (k, v) \<in> set m"
  by (simp add: gm_get_def map_of_SomeD)

lemma gm_get_iff: "gm_ok m \<Longrightarrow> gm_get m k = Some v \<longleftrightarrow> (k, v) \<in> set m"
  by (auto simp: gm_get_def gm_ok_def)

lemma gm_dom: "dom (gm_get m) = set (gm_keys m)"
  by (simp add: gm_get_def [abs_def] gm_keys_def dom_map_of_conv_image_fst)

lemma gm_get_None_iff: "gm_get m k = None \<longleftrightarrow> k \<notin> set (gm_keys m)"
  using gm_dom [of m] by (auto simp: domIff)

lemma gm_same_get: "gm_same m n \<Longrightarrow> gm_get m = gm_get n"
  unfolding gm_same_def gm_ok_def gm_get_def [abs_def]
  by (metis map_of_inject_set set_mset_mset)

lemma gm_same_refl: "gm_ok m \<Longrightarrow> gm_same m m"
  by (simp add: gm_same_def)

lemma gm_same_keys: "gm_same m n \<Longrightarrow> mset (gm_keys m) = mset (gm_keys n)"
  unfolding gm_same_def gm_keys_def by (metis mset_map)

text \<open>Two well-formed lists with the same lookups are orders of one map.\<close>

lemma gm_same_iff: "gm_same m n \<longleftrightarrow> gm_ok m \<and> gm_ok n \<and> gm_get m = gm_get n"
proof
  assume "gm_same m n"
  then show "gm_ok m \<and> gm_ok n \<and> gm_get m = gm_get n"
    by (simp add: gm_same_get) (simp add: gm_same_def)
next
  assume a: "gm_ok m \<and> gm_ok n \<and> gm_get m = gm_get n"
  then have "distinct m" "distinct n"
    by (auto simp: gm_ok_def distinct_map)
  moreover have "set m = set n"
    using a by (auto simp: gm_get_iff [symmetric])
  ultimately show "gm_same m n"
    using a by (simp add: gm_same_def set_eq_iff_mset_eq_distinct)
qed

section \<open>Stable sorting\<close>

text \<open>
  \<open>sort.SliceStable(xs, less)\<close>: insertion of the elements from the right, a later
  element never passing one that is not strictly greater. For an order given by a key it is
  the library's \<open>sort_key\<close>.
\<close>

fun insertStable :: "('a \<Rightarrow> 'a \<Rightarrow> bool) \<Rightarrow> 'a \<Rightarrow> 'a list \<Rightarrow> 'a list" where
  "insertStable lt x [] = [x]"
| "insertStable lt x (y # ys) = (if lt y x then y # insertStable lt x ys else x # y # ys)"

fun sliceStable :: "('a \<Rightarrow> 'a \<Rightarrow> bool) \<Rightarrow> 'a list \<Rightarrow> 'a list" where
  "sliceStable lt [] = []"
| "sliceStable lt (x # xs) = insertStable lt x (sliceStable lt xs)"

lemma insertStable_insort:
  "insertStable (\<lambda>a b. f a < (f b :: 'k :: linorder)) x ys = insort_key f x ys"
  by (induction ys) auto

lemma sliceStable_sort_key:
  "sliceStable (\<lambda>a b. f a < (f b :: 'k :: linorder)) xs = sort_key f xs"
  by (induction xs) (simp_all add: insertStable_insort sort_key_def)

lemma mset_sliceStable: "mset (sliceStable lt xs) = mset xs"
proof -
  have "mset (insertStable lt x ys) = add_mset x (mset ys)" for x ys
    by (induction ys) auto
  then show ?thesis by (induction xs) auto
qed

lemma set_sliceStable [simp]: "set (sliceStable lt xs) = set xs"
  by (metis mset_sliceStable set_mset_mset)

lemma sliceStable_Nil_iff [simp]: "sliceStable lt xs = [] \<longleftrightarrow> xs = []"
  using mset_sliceStable [of lt xs] by auto

text \<open>The order in which the elements are given does not matter when no two of them have
  the same key.\<close>

lemma sort_key_perm:
  assumes "mset xs = mset ys" and "inj_on f (set xs)"
  shows "sort_key f xs = sort_key f ys"
  using assms by (intro sort_key_inj_key_eq) simp_all

lemma sorted_sliceStable:
  "sorted (map f (sliceStable (\<lambda>a b. f a < (f b :: 'k :: linorder)) xs))"
  by (simp add: sliceStable_sort_key)

lemma distinct_set_singleton: "distinct ss \<Longrightarrow> set ss = {x} \<Longrightarrow> ss = [x]"
proof (cases ss)
  case (Cons y ys)
  assume "distinct ss" and "set ss = {x}"
  with Cons have "y = x" "set ys \<subseteq> {x}" "x \<notin> set ys" by auto
  then show ?thesis using Cons by (metis list.set_intros(1) neq_Nil_conv singletonD subsetD)
qed simp

lemma sliceStable_sort: "sliceStable (<) xs = sort (xs :: 'a :: linorder list)"
  using sliceStable_sort_key [of "\<lambda>x. x" xs] by simp

lemma concat_map_concat:
  "concat (map (\<lambda>p. concat (map f (g p))) ps) = concat (map f (concat (map g ps)))"
  by (induction ps) auto

text \<open>A statement about every position of a list, by recursion.\<close>

lemma all_positions_Cons:
  "(\<forall>pre x post. e # es = pre @ x # post \<longrightarrow> P pre x) \<longleftrightarrow>
     P [] e \<and> (\<forall>pre x post. es = pre @ x # post \<longrightarrow> P (e # pre) x)"
  by (auto simp: Cons_eq_append_conv)

end
