(* ===== verification/Routing_Table.thy ===== *)
theory Routing_Table
  imports Prelude
begin

text \<open>
  The routing table of \<open>models/routing_table.go\<close>: its data types, every operation of the
  file, the well-formedness invariant, the abstraction to a function from routing keys and
  backend keys to backend details, and the interface the updater relies on.

  The modification tag is a type of the routing API package. It is the type parameter
  \<open>'tag\<close> here, and its method \<open>SucceededBy\<close> is the argument \<open>succ\<close> of the operations
  that call it. Each reading of \<open>time.Now()\<close> is an argument: one instant where an
  operation reads the clock once, and a sequence of readings \<open>clk\<close> with the number of the
  next one where a loop reads it in every round.
\<close>

section \<open>Data\<close>

datatype SniHostname = SniHostname (sni_string: string)

text \<open>\<open>SniHostname\<close> values are compared as the strings they are.\<close>

instantiation SniHostname :: linorder
begin

definition less_eq_SniHostname :: "SniHostname \<Rightarrow> SniHostname \<Rightarrow> bool" where
  "less_eq_SniHostname a b \<longleftrightarrow> sni_string a \<le> sni_string b"

definition less_SniHostname :: "SniHostname \<Rightarrow> SniHostname \<Rightarrow> bool" where
  "less_SniHostname a b \<longleftrightarrow> sni_string a < sni_string b"

instance
  by standard
    (auto simp: less_eq_SniHostname_def less_SniHostname_def SniHostname.expand)

end

record RoutingKey =
  rk_Port :: u16
  rk_SniHostname :: SniHostname

lemma RoutingKey_eta: "\<lparr>rk_Port = rk_Port k, rk_SniHostname = rk_SniHostname k\<rparr> = (k :: RoutingKey)"
  by simp

record 'tag BackendServerInfo =
  bi_Address :: string
  bi_Port :: u16
  bi_TLSPort :: int
  bi_InstanceID :: string
  bi_ModificationTag :: 'tag
  bi_TTL :: int

record BackendServerKey =
  bk_Address :: string
  bk_Port :: u16
  bk_TLSPort :: int
  bk_InstanceID :: string

record 'tag BackendServerDetails =
  bd_ModificationTag :: 'tag
  bd_TTL :: int
  bd_UpdatedTime :: time

record 'tag RoutingTableEntry =
  Backends :: "(BackendServerKey, 'tag BackendServerDetails) gomap"

record 'tag RoutingTable =
  Entries :: "(RoutingKey, 'tag RoutingTableEntry) gomap"

section \<open>Operations\<close>

definition serverKeyDetailsFromInfo ::
  "time \<Rightarrow> 'tag BackendServerInfo \<Rightarrow> BackendServerKey \<times> 'tag BackendServerDetails" where
  "serverKeyDetailsFromInfo now info =
     (\<lparr>bk_Address = bi_Address info, bk_Port = bi_Port info,
       bk_TLSPort = bi_TLSPort info, bk_InstanceID = bi_InstanceID info\<rparr>,
      \<lparr>bd_ModificationTag = bi_ModificationTag info, bd_TTL = bi_TTL info,
       bd_UpdatedTime = now\<rparr>)"

text \<open>The loop of \<open>NewRoutingTableEntry\<close>: a later backend with the same key replaces an
  earlier one; the clock is read once per backend, from reading number \<open>i\<close> on.\<close>

fun newEntryLoop ::
  "(nat \<Rightarrow> time) \<Rightarrow> nat \<Rightarrow> 'tag BackendServerInfo list
   \<Rightarrow> (BackendServerKey, 'tag BackendServerDetails) gomap
   \<Rightarrow> (BackendServerKey, 'tag BackendServerDetails) gomap" where
  "newEntryLoop clk i [] m = m"
| "newEntryLoop clk i (backend # backends) m =
     (let backendServerKey = \<lparr>bk_Address = bi_Address backend, bk_Port = bi_Port backend,
            bk_TLSPort = bi_TLSPort backend, bk_InstanceID = bi_InstanceID backend\<rparr>;
          backendServerDetails = \<lparr>bd_ModificationTag = bi_ModificationTag backend,
            bd_TTL = bi_TTL backend, bd_UpdatedTime = clk i\<rparr>
      in newEntryLoop clk (Suc i) backends (gm_put backendServerKey backendServerDetails m))"

definition NewRoutingTableEntry ::
  "(nat \<Rightarrow> time) \<Rightarrow> nat \<Rightarrow> 'tag BackendServerInfo list \<Rightarrow> 'tag RoutingTableEntry" where
  "NewRoutingTableEntry clk i backends = \<lparr>Backends = newEntryLoop clk i backends gm_empty\<rparr>"

definition NewRoutingTable :: "'tag RoutingTable" where
  "NewRoutingTable = \<lparr>Entries = gm_empty\<rparr>"

definition UpdateSucceededBy ::
  "('tag \<Rightarrow> 'tag \<Rightarrow> bool) \<Rightarrow> 'tag BackendServerDetails \<Rightarrow> 'tag BackendServerDetails \<Rightarrow> bool" where
  "UpdateSucceededBy succ d other = succ (bd_ModificationTag d) (bd_ModificationTag other)"

definition DifferentFrom ::
  "('tag \<Rightarrow> 'tag \<Rightarrow> bool) \<Rightarrow> 'tag BackendServerDetails \<Rightarrow> 'tag BackendServerDetails \<Rightarrow> bool" where
  "DifferentFrom succ d other \<longleftrightarrow> UpdateSucceededBy succ d other \<and> False"

definition DeleteSucceededBy ::
  "('tag \<Rightarrow> 'tag \<Rightarrow> bool) \<Rightarrow> 'tag BackendServerDetails \<Rightarrow> 'tag BackendServerDetails \<Rightarrow> bool" where
  "DeleteSucceededBy succ d other \<longleftrightarrow>
     bd_ModificationTag d = bd_ModificationTag other
     \<or> succ (bd_ModificationTag d) (bd_ModificationTag other)"

text \<open>\<open>time.Now().Add(-time.Duration(ttl) * time.Second)\<close>, with the product at the width
  of \<open>int64\<close>.\<close>

definition Expired :: "time \<Rightarrow> int \<Rightarrow> 'tag BackendServerDetails \<Rightarrow> bool" where
  "Expired now defaultTTL d =
     (let ttl = (if bd_TTL d = 0 then defaultTTL else bd_TTL d);
          expiryTime = now + neg_seconds ttl
      in expiryTime > bd_UpdatedTime d)"

text \<open>The \<open>range\<close> loop of \<open>PruneBackends\<close>: every round reads the clock; a \<open>delete\<close> of the
  current key is the only change, so the keys still to visit are those of the start.\<close>

fun pruneBackendsLoop ::
  "(nat \<Rightarrow> time) \<Rightarrow> int \<Rightarrow> nat
   \<Rightarrow> (BackendServerKey, 'tag BackendServerDetails) gomap
   \<Rightarrow> (BackendServerKey, 'tag BackendServerDetails) gomap
   \<Rightarrow> (BackendServerKey, 'tag BackendServerDetails) gomap \<times> nat" where
  "pruneBackendsLoop clk defaultTTL i [] m = (m, i)"
| "pruneBackendsLoop clk defaultTTL i ((backendKey, details) # rest) m =
     (if Expired (clk i) defaultTTL details
      then pruneBackendsLoop clk defaultTTL (Suc i) rest (gm_del backendKey m)
      else pruneBackendsLoop clk defaultTTL (Suc i) rest m)"

definition PruneBackends ::
  "(nat \<Rightarrow> time) \<Rightarrow> int \<Rightarrow> nat \<Rightarrow> 'tag RoutingTableEntry \<Rightarrow> 'tag RoutingTableEntry \<times> nat" where
  "PruneBackends clk defaultTTL i e =
     (let (m, j) = pruneBackendsLoop clk defaultTTL i (Backends e) (Backends e)
      in (e\<lparr>Backends := m\<rparr>, j))"

text \<open>\<open>PruneBackends\<close> changes the map the entry holds by reference; here the changed entry
  is written back under its key.\<close>

fun pruneEntriesLoop ::
  "(nat \<Rightarrow> time) \<Rightarrow> int \<Rightarrow> nat
   \<Rightarrow> (RoutingKey, 'tag RoutingTableEntry) gomap
   \<Rightarrow> (RoutingKey, 'tag RoutingTableEntry) gomap
   \<Rightarrow> (RoutingKey, 'tag RoutingTableEntry) gomap \<times> nat" where
  "pruneEntriesLoop clk defaultTTL i [] m = (m, i)"
| "pruneEntriesLoop clk defaultTTL i ((routeKey, entry) # rest) m =
     (let (entry', j) = PruneBackends clk defaultTTL i entry;
          m' = gm_put routeKey entry' m
      in if gm_len (Backends entry') = 0
         then pruneEntriesLoop clk defaultTTL j rest (gm_del routeKey m')
         else pruneEntriesLoop clk defaultTTL j rest m')"

definition PruneEntries ::
  "(nat \<Rightarrow> time) \<Rightarrow> int \<Rightarrow> nat \<Rightarrow> 'tag RoutingTable \<Rightarrow> 'tag RoutingTable \<times> nat" where
  "PruneEntries clk defaultTTL i table =
     (let (m, j) = pruneEntriesLoop clk defaultTTL i (Entries table) (Entries table)
      in (table\<lparr>Entries := m\<rparr>, j))"

text \<open>\<open>reflect.DeepEqual\<close> on two entries: maps of equal length with equal values. A map that is \<open>nil\<close>,
  which \<open>DeepEqual\<close> tells from an empty one, is not represented: the entries the program puts in a table
  are made by \<open>NewRoutingTableEntry\<close>, whose map is not \<open>nil\<close>.\<close>

definition entryDeepEqual :: "'tag RoutingTableEntry \<Rightarrow> 'tag RoutingTableEntry \<Rightarrow> bool" where
  "entryDeepEqual e f \<longleftrightarrow> gm_len (Backends e) = gm_len (Backends f)
     \<and> list_all (\<lambda>(k, d). gm_get (Backends f) k = Some d) (Backends e)"

text \<open>The method \<open>Set\<close>.\<close>

definition SetEntry ::
  "RoutingKey \<Rightarrow> 'tag RoutingTableEntry \<Rightarrow> 'tag RoutingTable \<Rightarrow> 'tag RoutingTable \<times> bool" where
  "SetEntry key newEntry table =
     (case gm_get (Entries table) key of
        Some existingEntry \<Rightarrow>
          if entryDeepEqual existingEntry newEntry then (table, False)
          else (table\<lparr>Entries := gm_put key newEntry (Entries table)\<rparr>, True)
      | None \<Rightarrow> (table\<lparr>Entries := gm_put key newEntry (Entries table)\<rparr>, True))"

definition UpsertBackendServerKey ::
  "('tag \<Rightarrow> 'tag \<Rightarrow> bool) \<Rightarrow> time \<Rightarrow> RoutingKey \<Rightarrow> 'tag BackendServerInfo
   \<Rightarrow> 'tag RoutingTable \<Rightarrow> 'tag RoutingTable \<times> bool" where
  "UpsertBackendServerKey succ now key info table =
     (case gm_get (Entries table) key of
        None \<Rightarrow>
          (table\<lparr>Entries := gm_put key (NewRoutingTableEntry (\<lambda>_. now) 0 [info]) (Entries table)\<rparr>,
           True)
      | Some existingEntry \<Rightarrow>
          let (newBackendKey, newBackendDetails) = serverKeyDetailsFromInfo now info;
              current = gm_get (Backends existingEntry) newBackendKey;
              backendFound = (current \<noteq> None);
              apply_change = (\<not> backendFound \<or> UpdateSucceededBy succ (the current) newBackendDetails);
              table' = (if apply_change
                then table\<lparr>Entries := gm_put key
                       (existingEntry\<lparr>Backends :=
                          gm_put newBackendKey newBackendDetails (Backends existingEntry)\<rparr>)
                       (Entries table)\<rparr>
                else table)
          in (table',
              \<not> backendFound \<or> DifferentFrom succ (the current) newBackendDetails))"

definition DeleteBackendServerKey ::
  "('tag \<Rightarrow> 'tag \<Rightarrow> bool) \<Rightarrow> time \<Rightarrow> RoutingKey \<Rightarrow> 'tag BackendServerInfo
   \<Rightarrow> 'tag RoutingTable \<Rightarrow> 'tag RoutingTable \<times> bool" where
  "DeleteBackendServerKey succ now key info table =
     (let (backendServerKey, newDetails) = serverKeyDetailsFromInfo now info in
      case gm_get (Entries table) key of
        None \<Rightarrow> (table, False)
      | Some existingEntry \<Rightarrow>
          (case gm_get (Backends existingEntry) backendServerKey of
             None \<Rightarrow> (table, False)
           | Some existingDetails \<Rightarrow>
               if DeleteSucceededBy succ existingDetails newDetails
               then
                 (let backends' = gm_del backendServerKey (Backends existingEntry);
                      entries' = gm_put key (existingEntry\<lparr>Backends := backends'\<rparr>) (Entries table)
                  in (table\<lparr>Entries := (if gm_len backends' = 0 then gm_del key entries'
                                      else entries')\<rparr>, True))
               else (table, False)))"

text \<open>\<open>Get\<close>: the zero value, an entry without backends, for a key that is absent.\<close>

definition Get :: "'tag RoutingTable \<Rightarrow> RoutingKey \<Rightarrow> 'tag RoutingTableEntry" where
  "Get table key = (case gm_get (Entries table) key of
     Some e \<Rightarrow> e | None \<Rightarrow> \<lparr>Backends = gm_empty\<rparr>)"

definition Size :: "'tag RoutingTable \<Rightarrow> nat" where
  "Size table = gm_len (Entries table)"

section \<open>Abstract view and invariant\<close>

text \<open>What the table holds: the details of each backend of each route.\<close>

type_synonym 'tag routes = "RoutingKey \<Rightarrow> BackendServerKey \<Rightarrow> 'tag BackendServerDetails option"

definition lookup_backend :: "'tag RoutingTable \<Rightarrow> 'tag routes" where
  "lookup_backend t k = (case gm_get (Entries t) k of
     None \<Rightarrow> Map.empty | Some e \<Rightarrow> gm_get (Backends e))"

definition table_pairs :: "'tag RoutingTable \<Rightarrow> (RoutingKey \<times> BackendServerKey) set" where
  "table_pairs t = {(k, b). lookup_backend t k b \<noteq> None}"

text \<open>Keys are distinct at both levels and no route is left without a backend.\<close>

definition wf_entry :: "'tag RoutingTableEntry \<Rightarrow> bool" where
  "wf_entry e \<longleftrightarrow> gm_ok (Backends e) \<and> Backends e \<noteq> []"

definition wf_table :: "'tag RoutingTable \<Rightarrow> bool" where
  "wf_table t \<longleftrightarrow> gm_ok (Entries t) \<and> (\<forall>k e. gm_get (Entries t) k = Some e \<longrightarrow> wf_entry e)"

definition info_key :: "'tag BackendServerInfo \<Rightarrow> BackendServerKey" where
  "info_key info = fst (serverKeyDetailsFromInfo 0 info)"

definition info_details :: "time \<Rightarrow> 'tag BackendServerInfo \<Rightarrow> 'tag BackendServerDetails" where
  "info_details now info = snd (serverKeyDetailsFromInfo now info)"

lemma serverKeyDetails_eq [table_simps]:
  "serverKeyDetailsFromInfo now info = (info_key info, info_details now info)"
  by (simp add: info_key_def info_details_def serverKeyDetailsFromInfo_def)

lemma newEntry_single [table_simps]:
  "NewRoutingTableEntry (\<lambda>_. now) 0 [info] = \<lparr>Backends = [(info_key info, info_details now info)]\<rparr>"
  by (simp add: NewRoutingTableEntry_def Let_def gm_put_def gm_empty_def info_key_def
      info_details_def serverKeyDetailsFromInfo_def)

text \<open>The abstract operations on routes.\<close>

definition routes_upsert ::
  "('tag \<Rightarrow> 'tag \<Rightarrow> bool) \<Rightarrow> time \<Rightarrow> RoutingKey \<Rightarrow> 'tag BackendServerInfo
   \<Rightarrow> 'tag routes \<Rightarrow> 'tag routes" where
  "routes_upsert succ now k info A =
     (case A k (info_key info) of
        Some d \<Rightarrow> if succ (bd_ModificationTag d) (bi_ModificationTag info)
                  then A(k := (A k)(info_key info \<mapsto> info_details now info)) else A
      | None \<Rightarrow> A(k := (A k)(info_key info \<mapsto> info_details now info)))"

definition routes_delete ::
  "('tag \<Rightarrow> 'tag \<Rightarrow> bool) \<Rightarrow> RoutingKey \<Rightarrow> 'tag BackendServerInfo \<Rightarrow> 'tag routes \<Rightarrow> 'tag routes" where
  "routes_delete succ k info A =
     (case A k (info_key info) of
        Some d \<Rightarrow> if bd_ModificationTag d = bi_ModificationTag info
                    \<or> succ (bd_ModificationTag d) (bi_ModificationTag info)
                  then A(k := (A k)(info_key info := None)) else A
      | None \<Rightarrow> A)"

lemma info_details_tag [simp]: "bd_ModificationTag (info_details now info) = bi_ModificationTag info"
  by (simp add: info_details_def serverKeyDetailsFromInfo_def)

lemma info_details_simps [simp]:
  "bd_TTL (info_details now info) = bi_TTL info" "bd_UpdatedTime (info_details now info) = now"
  by (simp_all add: info_details_def serverKeyDetailsFromInfo_def)

lemma lookup_backend_put [simp]:
  "lookup_backend (t\<lparr>Entries := gm_put k e m\<rparr>) =
     (lookup_backend (t\<lparr>Entries := m\<rparr>))(k := gm_get (Backends e))"
  by (auto simp: lookup_backend_def fun_eq_iff)

lemma lookup_backend_del [simp]:
  "lookup_backend (t\<lparr>Entries := gm_del k m\<rparr>) =
     (lookup_backend (t\<lparr>Entries := m\<rparr>))(k := Map.empty)"
  by (auto simp: lookup_backend_def fun_eq_iff)

lemma lookup_backend_upd_id [simp]: "lookup_backend (t\<lparr>Entries := Entries t\<rparr>) = lookup_backend t"
  by simp

lemma lookup_Some_entry:
  "gm_get (Entries t) k = Some e \<Longrightarrow> lookup_backend t k = gm_get (Backends e)"
  by (simp add: lookup_backend_def)

lemma lookup_None_entry:
  "gm_get (Entries t) k = None \<Longrightarrow> lookup_backend t k = Map.empty"
  by (simp add: lookup_backend_def)

section \<open>Upsert\<close>

lemma upsert_lookup:
  "lookup_backend (fst (UpsertBackendServerKey succ now k info t)) =
     routes_upsert succ now k info (lookup_backend t)"
proof (cases "gm_get (Entries t) k")
  case None
  then show ?thesis
    by (auto simp: UpsertBackendServerKey_def routes_upsert_def table_simps fun_eq_iff
        lookup_None_entry)
next
  case (Some e)
  then show ?thesis
    by (auto simp: UpsertBackendServerKey_def routes_upsert_def table_simps fun_eq_iff Let_def
        UpdateSucceededBy_def lookup_Some_entry split: option.splits)
qed

lemma upsert_flag:
  "snd (UpsertBackendServerKey succ now k info t) \<longleftrightarrow> lookup_backend t k (info_key info) = None"
  by (auto simp: UpsertBackendServerKey_def table_simps Let_def DifferentFrom_def
      lookup_backend_def split: option.splits)

lemma wf_entry_put [wf_intros]: "wf_entry e \<Longrightarrow> wf_entry (e\<lparr>Backends := gm_put b d (Backends e)\<rparr>)"
  using gm.len_put [of "Backends e" b d]
  by (auto simp: wf_entry_def gm_len_def split: if_splits)

lemma wf_table_put: "wf_table t \<Longrightarrow> wf_entry e \<Longrightarrow> wf_table (t\<lparr>Entries := gm_put k e (Entries t)\<rparr>)"
  by (auto simp: wf_table_def)

lemma wf_upsert [wf_intros]: "wf_table t \<Longrightarrow> wf_table (fst (UpsertBackendServerKey succ now k info t))"
proof (cases "gm_get (Entries t) k")
  case None
  moreover assume "wf_table t"
  ultimately show ?thesis
    by (simp add: UpsertBackendServerKey_def table_simps wf_table_put wf_entry_def)
next
  case (Some e)
  moreover assume wf: "wf_table t"
  ultimately have "wf_entry e" by (simp add: wf_table_def)
  with wf Some show ?thesis
    by (simp add: UpsertBackendServerKey_def table_simps Let_def wf_table_put wf_entry_put)
qed

section \<open>Delete\<close>

lemma delete_lookup:
  assumes "wf_table t"
  shows "lookup_backend (fst (DeleteBackendServerKey succ now k info t)) =
     routes_delete succ k info (lookup_backend t)"
proof (cases "gm_get (Entries t) k")
  case None
  then show ?thesis
    by (simp add: DeleteBackendServerKey_def routes_delete_def table_simps lookup_None_entry)
next
  case (Some e)
  with assms have "gm_ok (Backends e)" by (simp add: wf_table_def wf_entry_def)
  then have "gm_len (gm_del (info_key info) (Backends e)) = 0 \<longleftrightarrow>
    (gm_get (Backends e))(info_key info := None) = Map.empty"
    by (simp add: gm.len_zero_iff)
  with Some show ?thesis
    by (auto simp: DeleteBackendServerKey_def routes_delete_def table_simps fun_eq_iff Let_def
        DeleteSucceededBy_def lookup_Some_entry split: option.splits)
qed

lemma delete_flag:
  "snd (DeleteBackendServerKey succ now k info t) \<longleftrightarrow>
     (\<exists>d. lookup_backend t k (info_key info) = Some d \<and>
        (bd_ModificationTag d = bi_ModificationTag info
         \<or> succ (bd_ModificationTag d) (bi_ModificationTag info)))"
  by (auto simp: DeleteBackendServerKey_def table_simps Let_def DeleteSucceededBy_def
      lookup_backend_def split: option.splits)

lemma delete_unchanged:
  "\<not> snd (DeleteBackendServerKey succ now k info t) \<Longrightarrow>
     fst (DeleteBackendServerKey succ now k info t) = t"
  by (auto simp: DeleteBackendServerKey_def table_simps Let_def split: option.splits if_splits)

lemma wf_delete [wf_intros]: "wf_table t \<Longrightarrow> wf_table (fst (DeleteBackendServerKey succ now k info t))"
proof (cases "gm_get (Entries t) k")
  case None
  moreover assume "wf_table t"
  ultimately show ?thesis by (simp add: DeleteBackendServerKey_def table_simps)
next
  case (Some e)
  moreover assume wf: "wf_table t"
  ultimately have "wf_entry e" by (simp add: wf_table_def)
  with wf Some show ?thesis
    by (auto simp: DeleteBackendServerKey_def table_simps Let_def wf_table_def wf_entry_def
        gm_len_def split: option.splits if_splits)
qed

section \<open>Expiry and pruning\<close>

lemma Expired_mono: "Expired now ttl d \<Longrightarrow> now \<le> now' \<Longrightarrow> Expired now' ttl d"
  by (auto simp: Expired_def Let_def)

text \<open>\<open>B\<close> is what is left of the backends \<open>A\<close> after a pruning whose clock readings lie
  between \<open>lo\<close> and \<open>hi\<close>.\<close>

definition pruned_between ::
  "int \<Rightarrow> time \<Rightarrow> time \<Rightarrow> (BackendServerKey \<Rightarrow> 'tag BackendServerDetails option)
   \<Rightarrow> (BackendServerKey \<Rightarrow> 'tag BackendServerDetails option) \<Rightarrow> bool" where
  "pruned_between ttl lo hi A B \<longleftrightarrow>
     (\<forall>b. (B b = None \<or> B b = A b)
        \<and> (\<forall>d. A b = Some d \<longrightarrow> (Expired lo ttl d \<longrightarrow> B b = None)
                            \<and> (\<not> Expired hi ttl d \<longrightarrow> B b = Some d)))"

lemma pruned_between_mono:
  "pruned_between ttl lo hi A B \<Longrightarrow> lo' \<le> lo \<Longrightarrow> hi \<le> hi' \<Longrightarrow> pruned_between ttl lo' hi' A B"
  unfolding pruned_between_def by (meson Expired_mono)

lemma pruneBackendsLoop_length:
  "pruneBackendsLoop clk ttl i l m = (m', j) \<Longrightarrow> j = i + length l"
  by (induction l arbitrary: i m) (fastforce split: if_splits)+

lemma pruneBackendsLoop_ok:
  "pruneBackendsLoop clk ttl i l m = (m', j) \<Longrightarrow> gm_ok m \<Longrightarrow> gm_ok m'"
  by (induction l arbitrary: i m) (auto split: if_splits)

lemma pruneBackendsLoop_other:
  "pruneBackendsLoop clk ttl i l m = (m', j) \<Longrightarrow> b \<notin> fst ` set l \<Longrightarrow> gm_get m' b = gm_get m b"
  by (induction l arbitrary: i m) (fastforce split: if_splits)+

text \<open>Every backend of the loop is judged by one of the readings.\<close>

lemma pruneBackendsLoop_at:
  assumes "distinct (map fst l)" and "pruneBackendsLoop clk ttl i l m = (m', j)"
    and "(b, d) \<in> set l"
  shows "\<exists>n. i \<le> n \<and> n < j \<and> gm_get m' b = (if Expired (clk n) ttl d then None else gm_get m b)"
  using assms
proof (induction l arbitrary: i m)
  case Nil
  then show ?case by simp
next
  case (Cons p l)
  obtain b1 d1 where p: "p = (b1, d1)" by (cases p)
  let ?m = "if Expired (clk i) ttl d1 then gm_del b1 m else m"
  have run: "pruneBackendsLoop clk ttl (Suc i) l ?m = (m', j)"
    using Cons.prems(2) p by (auto split: if_splits)
  have j: "j = Suc i + length l" using run by (rule pruneBackendsLoop_length)
  have fresh: "b1 \<notin> fst ` set l" using Cons.prems(1) p by auto
  show ?case
  proof (cases "(b, d) \<in> set l")
    case True
    with fresh have "b \<noteq> b1" by force
    then have "gm_get ?m b = gm_get m b" by simp
    with Cons.IH [OF _ run True] Cons.prems(1) show ?thesis by (auto intro: Suc_leD)
  next
    case False
    with Cons.prems(3) p have "b = b1" "d = d1" by auto
    with pruneBackendsLoop_other [OF run fresh] j show ?thesis by (intro exI [of _ i]) auto
  qed
qed

lemma PruneBackends_spec:
  assumes "gm_ok (Backends e)" and "mono clk" and "PruneBackends clk ttl i e = (e', j)"
  shows "i \<le> j \<and> gm_ok (Backends e')
    \<and> pruned_between ttl (clk i) (clk j) (gm_get (Backends e)) (gm_get (Backends e'))"
proof -
  obtain m where run: "pruneBackendsLoop clk ttl i (Backends e) (Backends e) = (m, j)"
    and e': "e' = e\<lparr>Backends := m\<rparr>"
    using assms(3) by (auto simp: PruneBackends_def split: prod.splits)
  have dist: "distinct (map fst (Backends e))" using assms(1) by (simp add: gm_ok_def)
  have absent: "gm_get m b = None" if "gm_get (Backends e) b = None" for b
    using pruneBackendsLoop_other [OF run, of b] that by (simp add: gm_get_None_iff gm_keys_def)
  have present: "(gm_get m b = None \<or> gm_get m b = Some d)
      \<and> (Expired (clk i) ttl d \<longrightarrow> gm_get m b = None)
      \<and> (\<not> Expired (clk j) ttl d \<longrightarrow> gm_get m b = Some d)"
    if found: "gm_get (Backends e) b = Some d" for b d
  proof -
    obtain n where n: "i \<le> n" "n < j"
      "gm_get m b = (if Expired (clk n) ttl d then None else Some d)"
      using pruneBackendsLoop_at [OF dist run gm_get_SomeD [OF found]] found by auto
    then have "clk i \<le> clk n" "clk n \<le> clk j" using assms(2) by (auto intro: monoD)
    with n(3) show ?thesis by (auto dest: Expired_mono)
  qed
  have "pruned_between ttl (clk i) (clk j) (gm_get (Backends e)) (gm_get m)"
    unfolding pruned_between_def using absent present by (metis not_None_eq)
  then show ?thesis
    using pruneBackendsLoop_length [OF run] pruneBackendsLoop_ok [OF run] assms(1) e' by simp
qed

text \<open>The loop over the routes: a route keeps its unexpired backends and goes when none is
  left.\<close>

definition entry_pruned ::
  "int \<Rightarrow> time \<Rightarrow> time \<Rightarrow> 'tag RoutingTableEntry \<Rightarrow> 'tag RoutingTableEntry option \<Rightarrow> bool" where
  "entry_pruned ttl lo hi e r \<longleftrightarrow>
     (case r of None \<Rightarrow> pruned_between ttl lo hi (gm_get (Backends e)) Map.empty
      | Some e' \<Rightarrow> wf_entry e' \<and> pruned_between ttl lo hi (gm_get (Backends e)) (gm_get (Backends e')))"

lemma entry_pruned_mono:
  "entry_pruned ttl lo hi e r \<Longrightarrow> lo' \<le> lo \<Longrightarrow> hi \<le> hi' \<Longrightarrow> entry_pruned ttl lo' hi' e r"
  unfolding entry_pruned_def by (auto split: option.splits intro: pruned_between_mono)

lemma pruneEntriesLoop_Cons:
  assumes "pruneEntriesLoop clk ttl i ((k, e) # l) m = (m', j)"
    and "gm_ok (Backends e)" and "mono clk"
  obtains i' m1 where "i \<le> i'" and "pruneEntriesLoop clk ttl i' l m1 = (m', j)"
    and "gm_ok m \<Longrightarrow> gm_ok m1" and "\<And>k'. k' \<noteq> k \<Longrightarrow> gm_get m1 k' = gm_get m k'"
    and "entry_pruned ttl (clk i) (clk i') e (gm_get m1 k)"
proof -
  obtain e' i' where pr: "PruneBackends clk ttl i e = (e', i')" by fastforce
  note spec = PruneBackends_spec [OF assms(2,3) pr]
  let ?m1 = "if gm_len (Backends e') = 0 then gm_del k (gm_put k e' m) else gm_put k e' m"
  have len0: "gm_len (Backends e') = 0 \<longleftrightarrow> gm_get (Backends e') = Map.empty"
    using spec gm.len_zero_iff by blast
  have "pruneEntriesLoop clk ttl i' l ?m1 = (m', j)"
    using assms(1) pr by (auto simp: Let_def split: if_splits)
  moreover have "entry_pruned ttl (clk i) (clk i') e (gm_get ?m1 k)"
    using spec len0 by (auto simp: entry_pruned_def wf_entry_def gm_len_def)
  ultimately show thesis
    using that [of i' ?m1] spec by auto
qed

lemma pruneEntriesLoop_spec:
  assumes "distinct (map fst l)" and "\<forall>(k, e) \<in> set l. gm_ok (Backends e)" and "mono clk"
    and "pruneEntriesLoop clk ttl i l m = (m', j)"
  shows "i \<le> j \<and> (gm_ok m \<longrightarrow> gm_ok m')
    \<and> (\<forall>k. k \<notin> fst ` set l \<longrightarrow> gm_get m' k = gm_get m k)
    \<and> (\<forall>(k, e) \<in> set l. entry_pruned ttl (clk i) (clk j) e (gm_get m' k))"
  using assms(1,2,4)
proof (induction l arbitrary: i m)
  case Nil
  then show ?case by simp
next
  case (Cons p l)
  obtain k e where p: "p = (k, e)" by (cases p)
  obtain i' m1 where step: "i \<le> i'" "pruneEntriesLoop clk ttl i' l m1 = (m', j)"
    "gm_ok m \<longrightarrow> gm_ok m1" "\<And>k'. k' \<noteq> k \<Longrightarrow> gm_get m1 k' = gm_get m k'"
    "entry_pruned ttl (clk i) (clk i') e (gm_get m1 k)"
    using pruneEntriesLoop_Cons [of clk ttl i k e l m m' j] Cons.prems p \<open>mono clk\<close> by auto
  have IH: "i' \<le> j \<and> (gm_ok m1 \<longrightarrow> gm_ok m')
    \<and> (\<forall>k. k \<notin> fst ` set l \<longrightarrow> gm_get m' k = gm_get m1 k)
    \<and> (\<forall>(k, e) \<in> set l. entry_pruned ttl (clk i') (clk j) e (gm_get m' k))"
    using Cons.IH [OF _ _ step(2)] Cons.prems(1,2) by simp
  have mono: "clk i \<le> clk i'" "clk i' \<le> clk j"
    using IH step(1) \<open>mono clk\<close> by (auto intro: monoD)
  have "gm_get m' k = gm_get m1 k" using IH Cons.prems(1) p by auto
  then have "entry_pruned ttl (clk i) (clk j) e (gm_get m' k)"
    using step(5) mono by (auto intro: entry_pruned_mono)
  moreover have "entry_pruned ttl (clk i) (clk j) e1 (gm_get m' k1)" if "(k1, e1) \<in> set l" for k1 e1
    using IH that mono by (auto intro: entry_pruned_mono)
  ultimately show ?case using IH step p by auto
qed

lemma PruneEntries_spec:
  assumes "wf_table t" and "mono clk" and "PruneEntries clk ttl i t = (t', j)"
  shows "i \<le> j \<and> wf_table t'
    \<and> (\<forall>k. pruned_between ttl (clk i) (clk j) (lookup_backend t k) (lookup_backend t' k))"
proof -
  obtain m where run: "pruneEntriesLoop clk ttl i (Entries t) (Entries t) = (m, j)"
    and t': "t' = t\<lparr>Entries := m\<rparr>"
    using assms(3) by (auto simp: PruneEntries_def split: prod.splits)
  have ok: "gm_ok (Entries t)" using assms(1) by (simp add: wf_table_def)
  have "\<forall>(k, e) \<in> set (Entries t). gm_ok (Backends e)"
    using assms(1) ok by (auto simp: wf_table_def wf_entry_def gm_get_iff)
  note spec = pruneEntriesLoop_spec [OF ok [unfolded gm_ok_def] this assms(2) run]
  have absent: "gm_get m k = None" if "gm_get (Entries t) k = None" for k
    using spec that by (simp add: gm_get_None_iff gm_keys_def)
  have present: "entry_pruned ttl (clk i) (clk j) e (gm_get m k)"
    if "gm_get (Entries t) k = Some e" for k e
    using spec gm_get_SomeD [OF that] by auto
  have "pruned_between ttl (clk i) (clk j) (lookup_backend t k) (lookup_backend t' k)" for k
    using absent [of k] present [of k] t'
    by (cases "gm_get (Entries t) k")
      (auto simp: lookup_backend_def entry_pruned_def pruned_between_def split: option.splits)
  moreover have "wf_table t'"
    using absent present spec ok t'
    by (fastforce simp: wf_table_def entry_pruned_def split: option.splits)
  ultimately show ?thesis using spec by blast
qed

section \<open>Size, and what the table promises its clients\<close>

lemma lookup_ne_entry: "lookup_backend t k b \<noteq> None \<Longrightarrow> gm_get (Entries t) k \<noteq> None"
  by (auto simp: lookup_backend_def split: option.splits)

lemma wf_entry_has_backend: "wf_entry e \<Longrightarrow> \<exists>b. gm_get (Backends e) b \<noteq> None"
  by (cases "Backends e") (auto simp: wf_entry_def)

lemma route_keys:
  assumes "wf_table t"
  shows "dom (gm_get (Entries t)) = fst ` table_pairs t"
proof -
  have "\<exists>b. lookup_backend t k b \<noteq> None" if "gm_get (Entries t) k = Some e" for k e
    using assms that wf_entry_has_backend [of e] by (simp add: wf_table_def lookup_Some_entry)
  then show ?thesis
    using lookup_ne_entry by (fastforce simp: dom_def table_pairs_def image_iff)
qed

lemma Size_card:
  assumes "wf_table t"
  shows "Size t = card (fst ` table_pairs t)"
  using assms gm.len_card [of "Entries t"] route_keys [OF assms]
  by (simp add: Size_def wf_table_def)

lemma finite_table_pairs:
  assumes "wf_table t"
  shows "finite (table_pairs t)"
proof (rule finite_subset)
  show "table_pairs t \<subseteq> (\<Union>k \<in> dom (gm_get (Entries t)). {k} \<times> dom (lookup_backend t k))"
    using lookup_ne_entry by (force simp: table_pairs_def)
  have "finite (dom (lookup_backend t k))" for k
    using gm.finite_get by (auto simp: lookup_backend_def split: option.splits)
  then show "finite (\<Union>k \<in> dom (gm_get (Entries t)). {k} \<times> dom (lookup_backend t k))"
    by (simp add: gm.finite_get)
qed

lemma upsert_pairs:
  "table_pairs (fst (UpsertBackendServerKey succ now k info t)) =
     insert (k, info_key info) (table_pairs t)"
  by (auto simp: table_pairs_def upsert_lookup routes_upsert_def split: option.splits if_splits)

lemma delete_pairs:
  "wf_table t \<Longrightarrow> table_pairs (fst (DeleteBackendServerKey succ now k info t)) =
     (if snd (DeleteBackendServerKey succ now k info t)
      then table_pairs t - {(k, info_key info)} else table_pairs t)"
  by (auto simp: table_pairs_def delete_lookup routes_delete_def delete_flag
      split: option.splits if_splits)

lemma upsert_flag_pairs:
  "snd (UpsertBackendServerKey succ now k info t) \<longleftrightarrow> (k, info_key info) \<notin> table_pairs t"
  by (simp add: upsert_flag table_pairs_def)

lemma delete_found_pairs:
  "snd (DeleteBackendServerKey succ now k info t) \<Longrightarrow> (k, info_key info) \<in> table_pairs t"
  by (auto simp: delete_flag table_pairs_def)

lemma NewRoutingTable_simps [simp]:
  "Entries NewRoutingTable = gm_empty" "wf_table NewRoutingTable"
  "lookup_backend NewRoutingTable k = Map.empty" "table_pairs NewRoutingTable = {}"
  "Size NewRoutingTable = 0"
  by (simp_all add: NewRoutingTable_def wf_table_def lookup_backend_def table_pairs_def Size_def)

text \<open>A sequence of upserts, as a client of the table makes them.\<close>

fun upsert_all :: "(time \<Rightarrow> 'k \<Rightarrow> 'i \<Rightarrow> 't \<Rightarrow> 't \<times> bool) \<Rightarrow> (time \<times> 'k \<times> 'i) list \<Rightarrow> 't \<Rightarrow> 't \<times> bool" where
  "upsert_all up [] t = (t, False)"
| "upsert_all up ((now, k, i) # xs) t =
     (let (t1, c1) = up now k i t; (t2, c2) = upsert_all up xs t1 in (t2, c1 \<or> c2))"

lemma upsert_all_Cons [simp]:
  "fst (upsert_all up ((now, k, i) # xs) t) = fst (upsert_all up xs (fst (up now k i t)))"
  "snd (upsert_all up ((now, k, i) # xs) t) \<longleftrightarrow>
     snd (up now k i t) \<or> snd (upsert_all up xs (fst (up now k i t)))"
  by (simp_all add: case_prod_beta)

declare upsert_all.simps(2) [simp del]

text \<open>
  The contract between the routing table and the updater: which backends are present after
  an upsert or a delete, what the returned flag means, and that the size counts the routes.
\<close>

locale route_store =
  fixes pairs :: "'t \<Rightarrow> ('k \<times> 'b) set"
    and ok :: "'t \<Rightarrow> bool"
    and size_of :: "'t \<Rightarrow> nat"
    and upsert :: "time \<Rightarrow> 'k \<Rightarrow> 'i \<Rightarrow> 't \<Rightarrow> 't \<times> bool"
    and delete :: "time \<Rightarrow> 'k \<Rightarrow> 'i \<Rightarrow> 't \<Rightarrow> 't \<times> bool"
    and bkey :: "'i \<Rightarrow> 'b"
    and fresh :: 't
  assumes ok_fresh: "ok fresh"
    and pairs_fresh: "pairs fresh = {}"
    and ok_upsert: "ok t \<Longrightarrow> ok (fst (upsert now k i t))"
    and ok_delete: "ok t \<Longrightarrow> ok (fst (delete now k i t))"
    and pairs_upsert: "ok t \<Longrightarrow> pairs (fst (upsert now k i t)) = insert (k, bkey i) (pairs t)"
    and upsert_new: "ok t \<Longrightarrow> snd (upsert now k i t) \<longleftrightarrow> (k, bkey i) \<notin> pairs t"
    and pairs_delete: "ok t \<Longrightarrow> pairs (fst (delete now k i t)) =
      (if snd (delete now k i t) then pairs t - {(k, bkey i)} else pairs t)"
    and delete_found: "ok t \<Longrightarrow> snd (delete now k i t) \<Longrightarrow> (k, bkey i) \<in> pairs t"
    and size_card: "ok t \<Longrightarrow> size_of t = card (fst ` pairs t)"
    and finite_pairs: "ok t \<Longrightarrow> finite (pairs t)"
begin

text \<open>An upsert or delete reports a change exactly when the set of backends changes.\<close>

lemma upsert_changed: "ok t \<Longrightarrow> snd (upsert now k i t) \<longleftrightarrow> pairs (fst (upsert now k i t)) \<noteq> pairs t"
  by (auto simp: pairs_upsert upsert_new)

lemma delete_changed: "ok t \<Longrightarrow> snd (delete now k i t) \<longleftrightarrow> pairs (fst (delete now k i t)) \<noteq> pairs t"
  using delete_found [of t now k i] by (auto simp: pairs_delete)

lemma ok_upsert_all: "ok t \<Longrightarrow> ok (fst (upsert_all upsert xs t))"
  by (induction xs arbitrary: t) (auto simp: ok_upsert)

lemma pairs_upsert_all:
  "ok t \<Longrightarrow> pairs (fst (upsert_all upsert xs t)) =
     pairs t \<union> (\<lambda>x. (fst (snd x), bkey (snd (snd x)))) ` set xs"
proof (induction xs arbitrary: t)
  case (Cons x xs)
  then show ?case by (cases x) (simp add: ok_upsert pairs_upsert)
qed simp

lemma upsert_all_changed:
  "ok t \<Longrightarrow> snd (upsert_all upsert xs t) \<longleftrightarrow> pairs (fst (upsert_all upsert xs t)) \<noteq> pairs t"
proof (induction xs arbitrary: t)
  case (Cons x xs)
  obtain now k i where x: "x = (now, k, i)" by (cases x)
  define P where "P = (\<lambda>x. (fst (snd x), bkey (snd (snd x)))) ` set xs"
  have ok: "ok (fst (upsert now k i t))" using Cons.prems by (rule ok_upsert)
  have "snd (upsert_all upsert (x # xs) t) \<longleftrightarrow>
      (k, bkey i) \<notin> pairs t \<or> insert (k, bkey i) (pairs t) \<union> P \<noteq> insert (k, bkey i) (pairs t)"
    using Cons.IH [OF ok] Cons.prems ok x
    by (simp add: upsert_new pairs_upsert_all pairs_upsert P_def)
  moreover have "pairs (fst (upsert_all upsert (x # xs) t)) = insert (k, bkey i) (pairs t) \<union> P"
    using Cons.prems ok x by (simp add: pairs_upsert_all pairs_upsert P_def)
  moreover have "(p \<notin> A \<or> insert p A \<union> B \<noteq> insert p A) \<longleftrightarrow> insert p A \<union> B \<noteq> A"
    for p :: "'k \<times> 'b" and A B by (cases "p \<in> A") (auto simp: insert_absorb)
  ultimately show ?case by simp
qed simp

text \<open>Loading a list of routes into a table and into a fresh one gives tables of one size
  exactly when they end with the same routes.\<close>

lemma same_size_iff_same_routes:
  assumes ok: "ok t" and same: "map snd xs = map snd ys"
  shows "size_of (fst (upsert_all upsert ys fresh)) = size_of (fst (upsert_all upsert xs t)) \<longleftrightarrow>
    fst ` pairs t \<subseteq> (fst \<circ> snd) ` set xs"
proof -
  have ks: "fst ` (\<lambda>x. (fst (snd x), bkey (snd (snd x)))) ` set zs = fst ` set (map snd zs)"
    for zs :: "(time \<times> 'k \<times> 'i) list" by (simp add: image_comp comp_def)
  have new: "fst ` pairs (fst (upsert_all upsert ys fresh)) = fst ` set (map snd xs)"
    using same by (simp add: pairs_upsert_all ok_fresh pairs_fresh ks)
  have loaded: "fst ` pairs (fst (upsert_all upsert xs t)) = fst ` pairs t \<union> fst ` set (map snd xs)"
    using ok by (simp add: pairs_upsert_all image_Un ks)
  have "finite (fst ` pairs t \<union> fst ` set (map snd xs))" using ok by (simp add: finite_pairs)
  then have "card (fst ` set (map snd xs)) = card (fst ` pairs t \<union> fst ` set (map snd xs)) \<longleftrightarrow>
      fst ` set (map snd xs) = fst ` pairs t \<union> fst ` set (map snd xs)"
    by (metis Un_upper2 card_subset_eq)
  then show ?thesis
    using ok ok_fresh new loaded by (auto simp: size_card ok_upsert_all image_comp)
qed

end

interpretation rt: route_store table_pairs wf_table Size
  "UpsertBackendServerKey succ" "DeleteBackendServerKey succ" info_key NewRoutingTable
  for succ :: "'tag \<Rightarrow> 'tag \<Rightarrow> bool"
  by unfold_locales
    (simp_all add: wf_intros upsert_pairs upsert_flag_pairs delete_pairs delete_found_pairs
      Size_card finite_table_pairs)

section \<open>The remaining operations\<close>

lemma find_append_aux: "find P (xs @ ys) = (case find P xs of None \<Rightarrow> find P ys | Some x \<Rightarrow> Some x)"
  by (induction xs) auto

lemma newEntryLoop_get:
  "gm_get (newEntryLoop clk i backends m) b =
     (case find (\<lambda>(n, x). info_key x = b) (rev (zip [i..<i + length backends] backends)) of
        None \<Rightarrow> gm_get m b | Some (n, x) \<Rightarrow> Some (info_details (clk n) x))"
proof (induction backends arbitrary: i m)
  case Nil
  then show ?case by simp
next
  case (Cons x xs)
  have "[i..<i + length (x # xs)] = i # [Suc i..<Suc i + length xs]"
    by (simp add: upt_conv_Cons del: upt_Suc)
  then show ?case
    using Cons [of "Suc i"]
    by (auto simp: Let_def info_key_def info_details_def serverKeyDetailsFromInfo_def find_append_aux
        split: option.splits)
qed

lemma entryDeepEqual_iff:
  assumes "gm_ok (Backends e)" and "gm_ok (Backends f)"
  shows "entryDeepEqual e f \<longleftrightarrow> gm_get (Backends e) = gm_get (Backends f)"
proof
  assume eq: "entryDeepEqual e f"
  then have sub: "set (Backends e) \<subseteq> set (Backends f)"
    using assms(2) by (auto simp: entryDeepEqual_def list_all_iff gm_get_iff)
  moreover have "card (set (Backends e)) = card (set (Backends f))"
    using eq assms by (simp add: entryDeepEqual_def gm_len_def gm_ok_def distinct_card distinct_map)
  ultimately have "set (Backends e) = set (Backends f)" by (simp add: card_subset_eq)
  then show "gm_get (Backends e) = gm_get (Backends f)"
    using assms by (simp add: gm_get_def [abs_def] gm_ok_def map_of_inject_set)
next
  assume eq: "gm_get (Backends e) = gm_get (Backends f)"
  then have "gm_len (Backends e) = gm_len (Backends f)" using assms by (simp add: gm.len_card)
  then show "entryDeepEqual e f"
    using eq assms by (auto simp: entryDeepEqual_def list_all_iff gm_get_iff [symmetric])
qed

section \<open>Correctness of the routing table\<close>

text \<open>Sample data for the witnesses: numbers as modification tags, a smaller number
  succeeded by a larger one.\<close>

definition sample_key :: RoutingKey where
  "sample_key = \<lparr>rk_Port = 2222, rk_SniHostname = SniHostname ''''\<rparr>"

definition sample_info :: "nat \<Rightarrow> nat BackendServerInfo" where
  "sample_info tag = \<lparr>bi_Address = ''10.0.0.1'', bi_Port = 60000, bi_TLSPort = 0,
     bi_InstanceID = '''', bi_ModificationTag = tag, bi_TTL = 60\<rparr>"

definition sample_table :: "nat RoutingTable" where
  "sample_table = fst (UpsertBackendServerKey (<) 0 sample_key (sample_info 3) NewRoutingTable)"

lemma sample_table_eq:
  "sample_table = \<lparr>Entries = [(sample_key, \<lparr>Backends =
     [(info_key (sample_info 3), info_details 0 (sample_info 3))]\<rparr>)]\<rparr>"
  by (simp add: sample_table_def UpsertBackendServerKey_def table_simps)
    (simp add: NewRoutingTable_def gm_put_def gm_empty_def)

lemma lookup_sample_table:
  "lookup_backend sample_table k b =
     (if k = sample_key \<and> b = info_key (sample_info 3) then Some (info_details 0 (sample_info 3))
      else None)"
  by (simp add: sample_table_eq lookup_backend_def)

lemma wf_sample_table: "wf_table sample_table"
  by (simp add: sample_table_def wf_upsert)

lemma sample_info_key: "info_key (sample_info n) = info_key (sample_info 0)"
  by (simp add: info_key_def sample_info_def serverKeyDetailsFromInfo_def)

text \<open>(C4) \<open>UpsertBackendServerKey\<close> keeps the table well formed and implements the abstract
  upsert: a backend that is absent, or present with a tag the new tag succeeds, is stored with
  the new details, and a stale event changes nothing; the returned flag is true exactly when
  the backend was not in the table, so also exactly when the set of backends changes.\<close>

theorem upsert_correct:
  assumes "wf_table t" and "UpsertBackendServerKey succ now k info t = (t', changed)"
  shows "wf_table t'
    \<and> lookup_backend t' = routes_upsert succ now k info (lookup_backend t)
    \<and> (changed \<longleftrightarrow> lookup_backend t k (info_key info) = None)
    \<and> (changed \<longleftrightarrow> table_pairs t' \<noteq> table_pairs t)"
  using wf_upsert [OF assms(1), of succ now k info] upsert_lookup [of succ now k info t]
    upsert_flag [of succ now k info t] rt.upsert_changed [OF assms(1), of succ now k info] assms(2)
  by simp

theorem upsert_correct_witness:
  "lookup_backend (fst (UpsertBackendServerKey (<) 9 sample_key (sample_info 5) sample_table))
     sample_key (info_key (sample_info 5)) = Some (info_details 9 (sample_info 5))
   \<and> \<not> snd (UpsertBackendServerKey (<) 9 sample_key (sample_info 5) sample_table)"
  using upsert_correct [OF wf_sample_table prod.collapse [symmetric],
      of "(<)" 9 sample_key "sample_info 5"]
  by (simp add: lookup_sample_table routes_upsert_def sample_info_key [of 5]
      sample_info_key [of 3]) (simp add: sample_info_def)

text \<open>(C5) \<open>DeleteBackendServerKey\<close> keeps the table well formed and implements the abstract
  delete: the backend goes exactly when it is present with the same tag or a tag that the
  given one succeeds, the route goes with its last backend, the flag says whether a backend
  went, and otherwise the table is unchanged.\<close>

theorem delete_correct:
  assumes "wf_table t" and "DeleteBackendServerKey succ now k info t = (t', changed)"
  shows "wf_table t'
    \<and> lookup_backend t' = routes_delete succ k info (lookup_backend t)
    \<and> (changed \<longleftrightarrow> table_pairs t' \<noteq> table_pairs t) \<and> (\<not> changed \<longrightarrow> t' = t)
    \<and> (k \<in> dom (gm_get (Entries t')) \<longleftrightarrow> (\<exists>b. lookup_backend t' k b \<noteq> None))"
proof -
  have wf: "wf_table t'" using wf_delete [OF assms(1), of succ now k info] assms(2) by simp
  have "k \<in> dom (gm_get (Entries t')) \<longleftrightarrow> (\<exists>b. lookup_backend t' k b \<noteq> None)"
    by (simp add: route_keys [OF wf] table_pairs_def image_iff)
  then show ?thesis
    using wf delete_lookup [OF assms(1), of succ now k info]
      rt.delete_changed [OF assms(1), of succ now k info] assms(2)
      delete_unchanged [of succ now k info t]
    by simp
qed

theorem delete_correct_witness:
  "sample_key \<notin> dom (gm_get (Entries
     (fst (DeleteBackendServerKey (<) 9 sample_key (sample_info 3) sample_table))))"
  using delete_correct [OF wf_sample_table prod.collapse [symmetric],
      of "(<)" 9 sample_key "sample_info 3"]
  by (auto simp: lookup_sample_table routes_delete_def fun_upd_def)

text \<open>(C16) \<open>PruneEntries\<close> keeps the table well formed, never adds or changes a backend,
  removes every backend that had expired at its first clock reading and keeps every one that
  has not expired by its last; routes left without backends go (they would break
  well-formedness).\<close>

theorem prune_correct:
  assumes "wf_table t" and "mono clk" and "PruneEntries clk ttl i t = (t', j)"
  shows "wf_table t'
    \<and> (\<forall>k b d. lookup_backend t k b = Some d \<longrightarrow>
         (Expired (clk i) ttl d \<longrightarrow> lookup_backend t' k b = None)
         \<and> (\<not> Expired (clk j) ttl d \<longrightarrow> lookup_backend t' k b = Some d))
    \<and> (\<forall>k b. lookup_backend t' k b = None \<or> lookup_backend t' k b = lookup_backend t k b)"
  using PruneEntries_spec [OF assms] unfolding pruned_between_def by blast

theorem prune_correct_witness:
  "lookup_backend (fst (PruneEntries (\<lambda>_. 61 * second) 120 0 sample_table)) sample_key
     (info_key (sample_info 3)) = None"
proof -
  have "Expired (61 * second) 120 (info_details 0 (sample_info 3))"
    by (simp add: Expired_def neg_seconds_exact sample_info_def second_def)
  moreover have "mono (\<lambda>_ :: nat. 61 * second)" by (simp add: mono_def)
  ultimately show ?thesis
    using prune_correct [OF wf_sample_table _ prod.collapse [symmetric],
      of "\<lambda>_. 61 * second" 120 0]
    by (simp add: lookup_sample_table)
qed

text \<open>(C31) \<open>Expired\<close> compares exactly as long as the time to live, or the default where it is
  zero, is at most 9223372036 seconds in size: the backend has expired when more than that many
  seconds have passed since its update. One second more overflows \<open>time.Duration\<close>, the
  product becomes positive, and a backend just updated counts as expired.\<close>

theorem expired_bounds:
  "(\<forall>now defaultTTL (d :: 'tag BackendServerDetails).
      \<bar>if bd_TTL d = 0 then defaultTTL else bd_TTL d\<bar> \<le> 9223372036 \<longrightarrow>
      (Expired now defaultTTL d \<longleftrightarrow>
         now - bd_UpdatedTime d > (if bd_TTL d = 0 then defaultTTL else bd_TTL d) * second))
   \<and> (\<forall>now defaultTTL (d :: 'tag BackendServerDetails). bd_TTL d = 9223372037 \<longrightarrow>
        (Expired now defaultTTL d \<longleftrightarrow> now - bd_UpdatedTime d > - 9223372036709551616))"
proof (intro conjI allI impI)
  fix now defaultTTL :: int and d :: "'tag BackendServerDetails"
  let ?ttl = "if bd_TTL d = 0 then defaultTTL else bd_TTL d"
  assume "\<bar>?ttl\<bar> \<le> 9223372036"
  then show "Expired now defaultTTL d \<longleftrightarrow> now - bd_UpdatedTime d > ?ttl * second"
    using neg_seconds_exact [of ?ttl] by (auto simp: Expired_def Let_def)
next
  fix now defaultTTL :: int and d :: "'tag BackendServerDetails"
  assume "bd_TTL d = 9223372037"
  moreover have "neg_seconds 9223372037 = 9223372036709551616"
    by (simp add: neg_seconds_def wrap64_def second_def)
  ultimately show "Expired now defaultTTL d \<longleftrightarrow> now - bd_UpdatedTime d > - 9223372036709551616"
    by (auto simp: Expired_def Let_def)
qed

text \<open>The bound at work: a time to live of two minutes, and one that overflows.\<close>

theorem expired_bounds_witness:
  "\<not> Expired (120 * second) 60 (info_details 0 (sample_info 3)\<lparr>bd_TTL := 120\<rparr>)
   \<and> Expired 0 60 (info_details 0 (sample_info 3)\<lparr>bd_TTL := 9223372037\<rparr>)"
  using expired_bounds [where 'tag = nat] by (simp add: second_def)

text \<open>Deleting what was just added restores the table: after an upsert of an absent
  backend, a delete with the same information finds it whatever \<open>SucceededBy\<close> is, both calls
  report a change, and every route holds what it held before.\<close>

lemma upsert_delete_roundtrip:
  assumes "wf_table t" and "lookup_backend t k (info_key info) = None"
    and "UpsertBackendServerKey succ now k info t = (t1, c1)"
    and "DeleteBackendServerKey succ now' k info t1 = (t2, c2)"
  shows "c1 \<and> c2 \<and> lookup_backend t2 = lookup_backend t \<and> Size t2 = Size t"
proof -
  have t1: "lookup_backend t1 = (lookup_backend t)(k := (lookup_backend t k)(info_key info \<mapsto> info_details now info))"
    using upsert_lookup [of succ now k info t] assms(2,3) by (simp add: routes_upsert_def)
  have wf1: "wf_table t1" using wf_upsert [OF assms(1), of succ now k info] assms(3) by simp
  have t2: "lookup_backend t2 = routes_delete succ k info (lookup_backend t1)"
    using delete_lookup [OF wf1, of succ now' k info] assms(4) by simp
  have wf2: "wf_table t2" using wf_delete [OF wf1, of succ now' k info] assms(4) by simp
  have same: "lookup_backend t2 = lookup_backend t"
    unfolding t2 t1 routes_delete_def using assms(2) by (auto simp: fun_eq_iff)
  then have "Size t2 = Size t"
    by (simp add: Size_card [OF wf2] Size_card [OF assms(1)] table_pairs_def)
  moreover have "c1" using upsert_flag [of succ now k info t] assms(2,3) by simp
  moreover have "c2" using delete_flag [of succ now' k info t1] assms(4) t1 by simp
  ultimately show ?thesis using same by blast
qed

lemma upsert_delete_roundtrip_witness:
  "Size (fst (DeleteBackendServerKey (<) 9 sample_key (sample_info 3) sample_table)) = 0"
proof -
  have "lookup_backend (NewRoutingTable :: nat RoutingTable) sample_key (info_key (sample_info 3)) = None"
    by simp
  moreover have "UpsertBackendServerKey (<) 0 sample_key (sample_info 3) NewRoutingTable =
      (sample_table, True)"
    by (simp add: sample_table_def prod_eq_iff upsert_flag)
  ultimately show ?thesis
    using upsert_delete_roundtrip [of NewRoutingTable sample_key "sample_info 3" "(<)" 0 sample_table True 9,
        OF _ _ _ prod.collapse [symmetric]] by simp
qed

text \<open>Out-of-order delivery: of two upserts of one new backend whose tags are ordered by
  \<open>SucceededBy\<close> in one direction only, the newer one's details are stored whichever of the two
  arrives first, and only the first arrival asks for a new configuration.\<close>

lemma newest_tag_wins:
  assumes "succ (bi_ModificationTag old) (bi_ModificationTag new)"
    and "\<not> succ (bi_ModificationTag new) (bi_ModificationTag old)"
    and "info_key old = info_key new" and "lookup_backend t k (info_key new) = None"
  shows "lookup_backend (fst (UpsertBackendServerKey succ n2 k new
           (fst (UpsertBackendServerKey succ n1 k old t)))) k (info_key new)
           = Some (info_details n2 new)
    \<and> lookup_backend (fst (UpsertBackendServerKey succ n2 k old
           (fst (UpsertBackendServerKey succ n1 k new t)))) k (info_key new)
           = Some (info_details n1 new)
    \<and> \<not> snd (UpsertBackendServerKey succ n2 k new (fst (UpsertBackendServerKey succ n1 k old t)))
    \<and> \<not> snd (UpsertBackendServerKey succ n2 k old (fst (UpsertBackendServerKey succ n1 k new t)))"
  using assms by (simp add: upsert_lookup upsert_flag routes_upsert_def)

lemma newest_tag_wins_witness:
  "lookup_backend (fst (UpsertBackendServerKey (<) 2 sample_key (sample_info 4)
     (fst (UpsertBackendServerKey (<) 1 sample_key (sample_info 7) NewRoutingTable))))
     sample_key (info_key (sample_info 7)) = Some (info_details 1 (sample_info 7))"
proof -
  have "bi_ModificationTag (sample_info 4) < bi_ModificationTag (sample_info 7)"
    "info_key (sample_info 4) = info_key (sample_info 7)"
    by (simp_all add: sample_info_def info_key_def serverKeyDetailsFromInfo_def)
  then show ?thesis
    using newest_tag_wins [of "(<)" "sample_info 4" "sample_info 7" NewRoutingTable sample_key 2 1]
    by simp
qed

end
