(* ===== verification/Go_Text.thy ===== *)
theory Go_Text
  imports Prelude
begin

text \<open>
  Text as the program handles it: the verbs \<open>%d\<close> of \<open>fmt.Sprintf\<close>, \<open>strconv.ParseUint\<close> and
  \<open>strconv.Atoi\<close>, \<open>strings.Split\<close>, \<open>strings.Join\<close> and \<open>strings.TrimSpace\<close>, and the part of
  \<open>regexp\<close> the program's one pattern needs. A Go string is a sequence of bytes and so is
  \<open>string\<close>. This theory models the standard library only; the pattern itself is in
  \<open>Haproxy_Config\<close>.
\<close>

section \<open>Decimal numbers\<close>

definition digit_char :: "nat \<Rightarrow> char" where "digit_char d = char_of (48 + d)"

definition is_digit :: "char \<Rightarrow> bool" where
  "is_digit c \<longleftrightarrow> 48 \<le> (of_char c :: nat) \<and> (of_char c :: nat) \<le> 57"

definition digit_val :: "char \<Rightarrow> nat" where "digit_val c = of_char c - 48"

fun showNat :: "nat \<Rightarrow> string" where
  "showNat n = (if n < 10 then [digit_char n] else showNat (n div 10) @ [digit_char (n mod 10)])"

declare showNat.simps [simp del]

definition showInt :: "int \<Rightarrow> string" where
  "showInt i = (if i < 0 then CHR ''-'' # showNat (nat (- i)) else showNat (nat i))"

definition showU16 :: "u16 \<Rightarrow> string" where "showU16 w = showNat (unat w)"

lemma digit_char_simps [simp]:
  "d < 10 \<Longrightarrow> is_digit (digit_char d)" "d < 10 \<Longrightarrow> digit_val (digit_char d) = d"
  by (simp_all add: is_digit_def digit_char_def digit_val_def)

lemma digit_char_inj: "d < 10 \<Longrightarrow> e < 10 \<Longrightarrow> digit_char d = digit_char e \<Longrightarrow> d = e"
  by (metis digit_char_simps(2))

lemma showNat_digits: "c \<in> set (showNat n) \<Longrightarrow> is_digit c"
proof (induction n rule: showNat.induct)
  case (1 n)
  then show ?case by (subst (asm) (2) showNat.simps) (auto split: if_splits)
qed

lemma showNat_nonempty [simp]: "showNat n \<noteq> []"
  by (subst showNat.simps) simp

lemma showU16_digits: "c \<in> set (showU16 w) \<Longrightarrow> is_digit c"
  by (simp add: showU16_def showNat_digits)

lemma showU16_nonempty [simp]: "showU16 w \<noteq> []"
  by (simp add: showU16_def)

datatype num_error = ErrSyntax | ErrRange

text \<open>The loop of \<open>strconv.ParseUint(s, 10, bitSize)\<close>; \<open>maxVal\<close> is \<open>1<<bitSize - 1\<close>. On a range
  error the function returns \<open>maxVal\<close> beside the error, on a syntax error zero.\<close>

fun parseDigits :: "nat \<Rightarrow> nat \<Rightarrow> string \<Rightarrow> nat \<times> num_error option" where
  "parseDigits maxVal n [] = (n, None)"
| "parseDigits maxVal n (c # cs) =
     (if \<not> is_digit c then (0, Some ErrSyntax)
      else let n1 = n * 10 + digit_val c in
        if n1 > maxVal then (maxVal, Some ErrRange) else parseDigits maxVal n1 cs)"

definition ParseUint :: "nat \<Rightarrow> string \<Rightarrow> nat \<times> num_error option" where
  "ParseUint bitSize s =
     (if s = [] then (0, Some ErrSyntax) else parseDigits (2 ^ bitSize - 1) 0 s)"

text \<open>\<open>strconv.Atoi\<close> on a 64-bit platform: an optional sign, then \<open>ParseUint\<close> at 64 bits and
  the range of \<open>int64\<close>.\<close>

definition Atoi :: "string \<Rightarrow> int \<times> num_error option" where
  "Atoi s =
     (let neg = (s \<noteq> [] \<and> hd s = CHR ''-'');
          digits = (if s \<noteq> [] \<and> (hd s = CHR ''-'' \<or> hd s = CHR ''+'') then tl s else s);
          (un, err) = ParseUint 64 digits
      in if err = Some ErrSyntax then (0, Some ErrSyntax)
         else if \<not> neg \<and> un \<ge> 2 ^ 63 then (2 ^ 63 - 1, Some ErrRange)
         else if neg \<and> un > 2 ^ 63 then (- (2 ^ 63), Some ErrRange)
         else (if neg then - int un else int un, None))"

lemma parseDigits_append:
  "parseDigits mx n (xs @ ys) =
     (case parseDigits mx n xs of (m, None) \<Rightarrow> parseDigits mx m ys | r \<Rightarrow> r)"
  by (induction xs arbitrary: n) (auto simp: Let_def split: option.splits prod.splits)

lemma parseDigits_showNat: "n \<le> mx \<Longrightarrow> parseDigits mx 0 (showNat n) = (n, None)"
proof (induction n rule: showNat.induct)
  case (1 n)
  show ?case
  proof (cases "n < 10")
    case True
    with "1.prems" show ?thesis by (subst showNat.simps) simp
  next
    case False
    moreover have "n div 10 \<le> mx" using "1.prems" by linarith
    moreover have "n div 10 * 10 + n mod 10 = n" by simp
    ultimately show ?thesis
      using "1.IH" "1.prems"
      by (subst showNat.simps) (simp add: parseDigits_append Let_def)
  qed
qed

lemma ParseUint_showNat: "n < 2 ^ bits \<Longrightarrow> ParseUint bits (showNat n) = (n, None)"
  by (simp add: ParseUint_def parseDigits_showNat)

lemma showNat_inj: "showNat m = showNat n \<Longrightarrow> m = n"
proof -
  assume eq: "showNat m = showNat n"
  have "(m, None :: num_error option) = parseDigits (max m n) 0 (showNat m)" by (simp add: parseDigits_showNat)
  also have "\<dots> = (n, None)" by (simp add: eq parseDigits_showNat)
  finally show ?thesis by simp
qed

lemma showNat_eq_iff [simp]: "showNat m = showNat n \<longleftrightarrow> m = n"
  using showNat_inj by blast

lemma showU16_eq_iff [simp]: "showU16 v = showU16 w \<longleftrightarrow> v = w"
  by (simp add: showU16_def word_unat_eq_iff)

lemma parseDigits_bound: "n \<le> mx \<Longrightarrow> fst (parseDigits mx n s) \<le> mx"
  by (induction s arbitrary: n) (auto simp: Let_def)

lemma ParseUint_bound: "fst (ParseUint bits s) < 2 ^ bits"
proof -
  have "fst (parseDigits (2 ^ bits - 1) 0 s) \<le> 2 ^ bits - 1" by (rule parseDigits_bound) simp
  moreover have "(0::nat) < 2 ^ bits" by simp
  ultimately show ?thesis
    unfolding ParseUint_def by (auto simp: less_eq_Suc_le le_diff_conv2)
qed

lemma parseDigits_syntax:
  "snd (parseDigits mx n s) = None \<Longrightarrow> c \<in> set s \<Longrightarrow> is_digit c"
  by (induction s arbitrary: n) (auto simp: Let_def split: if_splits)

section \<open>Split, join and trim\<close>

fun splitOn :: "char \<Rightarrow> string \<Rightarrow> string list" where
  "splitOn sep [] = [[]]"
| "splitOn sep (c # cs) =
     (if c = sep then [] # splitOn sep cs
      else case splitOn sep cs of [] \<Rightarrow> [[c]] | w # ws \<Rightarrow> (c # w) # ws)"

fun joinWith :: "string \<Rightarrow> string list \<Rightarrow> string" where
  "joinWith sep [] = []"
| "joinWith sep [w] = w"
| "joinWith sep (w # ws) = w @ sep @ joinWith sep ws"

lemma splitOn_nonempty [simp]: "splitOn sep s \<noteq> []"
  by (cases s) (auto split: list.splits)

lemma joinWith_splitOn: "joinWith [sep] (splitOn sep s) = s"
proof (induction s)
  case (Cons c s)
  then show ?case by (cases "splitOn sep s"; cases "tl (splitOn sep s)") auto
qed simp

lemma splitOn_no_sep: "sep \<notin> set s \<Longrightarrow> splitOn sep s = [s]"
  by (induction s) auto

lemma splitOn_append_sep: "sep \<notin> set w \<Longrightarrow> splitOn sep (w @ sep # s) = w # splitOn sep s"
  by (induction w) auto

lemma length_splitOn: "length (splitOn sep s) = Suc (count_list s sep)"
  by (induction s) (auto split: list.splits)

text \<open>The byte sequences of the characters \<open>unicode.IsSpace\<close> accepts.\<close>

definition space_seqs :: "string list" where
  "space_seqs = map (map char_of)
     ([[9], [10], [11], [12], [13], [32], [194, 133], [194, 160], [225, 154, 128],
       [226, 128, 168], [226, 128, 169], [226, 128, 175], [226, 129, 159], [227, 128, 128]]
      @ map (\<lambda>n. [226, 128, n]) [128..<139] :: nat list list)"

definition stripOne :: "string list \<Rightarrow> string \<Rightarrow> string option" where
  "stripOne seqs s = (case find (\<lambda>p. p = take (length p) s) seqs of
     None \<Rightarrow> None | Some p \<Rightarrow> Some (drop (length p) s))"

fun trimLeftFuel :: "nat \<Rightarrow> string list \<Rightarrow> string \<Rightarrow> string" where
  "trimLeftFuel 0 seqs s = s"
| "trimLeftFuel (Suc n) seqs s = (case stripOne seqs s of
     None \<Rightarrow> s | Some s' \<Rightarrow> trimLeftFuel n seqs s')"

text \<open>\<open>strings.TrimSpace\<close>; each round takes away at least one byte, so the length of the text is
  enough rounds.\<close>

definition TrimSpace :: "string \<Rightarrow> string" where
  "TrimSpace s =
     (let l = trimLeftFuel (length s) space_seqs s;
          r = trimLeftFuel (length l) (map rev space_seqs) (rev l)
      in rev r)"

lemma splitOn_split: "splitOn sep (a @ sep # b) = splitOn sep a @ splitOn sep b"
  by (induction a) (auto split: list.splits)

section \<open>Trimming\<close>

text \<open>The fuel is enough: what trimming leaves neither starts nor ends with a space.\<close>

lemma stripOne_shorter:
  assumes "stripOne seqs s = Some s'" "[] \<notin> set seqs" shows "length s' < length s"
proof -
  obtain p where p: "find (\<lambda>p. p = take (length p) s) seqs = Some p" "s' = drop (length p) s"
    using assms(1) by (auto simp: stripOne_def split: option.splits)
  then have mem: "p \<in> set seqs" "p = take (length p) s" by (auto simp: find_Some_iff)
  then have "p \<noteq> []" using assms(2) by auto
  moreover have "length p \<le> length s" using arg_cong [OF mem(2), of length] by simp
  ultimately show ?thesis using p(2) by (cases p) auto
qed

lemma trimLeft_done: "[] \<notin> set seqs \<Longrightarrow> length s \<le> n \<Longrightarrow> stripOne seqs (trimLeftFuel n seqs s) = None"
proof (induction n arbitrary: s)
  case 0
  then show ?case using stripOne_shorter [of seqs "[]"] by (cases "stripOne seqs []") auto
next
  case (Suc n)
  show ?case
  proof (cases "stripOne seqs s")
    case (Some s')
    then have "length s' \<le> n" using stripOne_shorter [OF Some] Suc.prems by linarith
    then show ?thesis using Suc.IH [of s'] Suc.prems Some by simp
  qed simp
qed

lemma space_seqs_nonempty [simp]: "[] \<notin> set space_seqs" "[] \<notin> rev ` set space_seqs"
  by (auto simp: space_seqs_def)

lemma TrimSpace_no_trailing: "stripOne (map rev space_seqs) (rev (TrimSpace s)) = None"
  by (simp add: TrimSpace_def Let_def trimLeft_done)

text \<open>White space around a text that does not start or end with it is taken away.\<close>

definition ascii_space :: "char \<Rightarrow> bool" where
  "ascii_space c \<longleftrightarrow> c \<in> set (map char_of [9, 10, 11, 12, 13, 32 :: nat])"

definition plain_char :: "char \<Rightarrow> bool" where
  "plain_char c \<longleftrightarrow> 32 < (of_char c :: nat) \<and> (of_char c :: nat) < 128"

lemma ascii_space_newline [simp]: "ascii_space (CHR 10)"
  by (simp add: ascii_space_def) code_simp

lemma find_singleton:
  "c \<in> set cs \<Longrightarrow> find (\<lambda>p. p = take (length p) (c # s)) (map (\<lambda>c. [c]) cs @ rest) = Some [c]"
  by (induction cs) auto

lemma stripOne_ascii_space:
  assumes "ascii_space c"
  shows "stripOne space_seqs (c # s) = Some s" "stripOne (map rev space_seqs) (c # s) = Some s"
proof -
  have "\<exists>rest. space_seqs = map (\<lambda>c. [c]) (map char_of [9, 10, 11, 12, 13, 32 :: nat]) @ rest"
    by (simp add: space_seqs_def)
  then obtain rest where
    eq: "space_seqs = map (\<lambda>c. [c]) (map char_of [9, 10, 11, 12, 13, 32 :: nat]) @ rest" ..
  have req: "map rev space_seqs =
      map (\<lambda>c. [c]) (map char_of [9, 10, 11, 12, 13, 32 :: nat]) @ map rev rest"
    by (subst eq) simp
  show "stripOne space_seqs (c # s) = Some s" "stripOne (map rev space_seqs) (c # s) = Some s"
    using find_singleton [OF assms [unfolded ascii_space_def]] unfolding stripOne_def eq req
    by auto
qed

lemma space_seqs_start:
  "p \<in> set space_seqs \<union> rev ` set space_seqs \<Longrightarrow> p \<noteq> [] \<and> \<not> plain_char (hd p)"
  by (auto simp: space_seqs_def plain_char_def)

lemma stripOne_plain:
  assumes "plain_char c" shows "stripOne space_seqs (c # s) = None" "stripOne (map rev space_seqs) (c # s) = None"
proof -
  have "p \<noteq> take (length p) (c # s)" if "p \<in> set space_seqs \<union> rev ` set space_seqs" for p
    using space_seqs_start [OF that] assms by (cases p) auto
  moreover have "stripOne seqs (c # s) = None" if "\<forall>p \<in> set seqs. p \<noteq> take (length p) (c # s)" for seqs
    using that by (auto simp: stripOne_def find_None_iff split: option.splits)
  ultimately show "stripOne space_seqs (c # s) = None" "stripOne (map rev space_seqs) (c # s) = None"
    by (metis Un_iff, metis Un_iff list.set_map)
qed

lemma trimLeft_spaces:
  assumes "seqs \<in> {space_seqs, map rev space_seqs}" "list_all ascii_space a"
    "s = [] \<or> plain_char (hd s)" "length a \<le> n"
  shows "trimLeftFuel n seqs (a @ s) = s"
  using assms(2,4)
proof (induction a arbitrary: n)
  case Nil
  have "stripOne seqs s = None" if "s \<noteq> []"
    using assms(1,3) that by (cases s) (auto simp: stripOne_plain)
  moreover have "stripOne seqs [] = None"
    using assms(1) stripOne_shorter [of seqs "[]"] by (cases "stripOne seqs []") auto
  ultimately show ?case by (cases n; cases "s = []") auto
next
  case (Cons c a)
  then show ?case using assms(1) by (cases n) (auto simp: stripOne_ascii_space)
qed

lemma TrimSpace_plain:
  assumes "list_all ascii_space a" "list_all ascii_space b" "list_all plain_char s" "s \<noteq> []"
  shows "TrimSpace (a @ s @ b) = s"
proof -
  have "trimLeftFuel (length (a @ s @ b)) space_seqs (a @ s @ b) = s @ b"
    using assms by (intro trimLeft_spaces) (auto simp: list_all_iff hd_append)
  moreover have "trimLeftFuel (length (s @ b)) (map rev space_seqs) (rev b @ rev s) = rev s"
    using assms by (intro trimLeft_spaces) (auto simp: list_all_iff hd_rev)
  ultimately show ?thesis by (simp add: TrimSpace_def Let_def)
qed

lemma showNat_plain: "list_all plain_char (showNat n)"
  using showNat_digits by (fastforce simp: list_all_iff is_digit_def plain_char_def)

text \<open>\<open>Atoi\<close> reads what \<open>%d\<close> prints.\<close>

lemma Atoi_showNat: "n < 2 ^ 63 \<Longrightarrow> Atoi (showNat n) = (int n, None)"
proof -
  assume n: "n < 2 ^ 63"
  have "is_digit (hd (showNat n))" by (rule showNat_digits [of _ n]) simp
  then have "hd (showNat n) \<noteq> CHR ''-''" "hd (showNat n) \<noteq> CHR ''+''" by (auto simp: is_digit_def)
  moreover have "ParseUint 64 (showNat n) = (n, None)" using n by (intro ParseUint_showNat) simp
  ultimately show ?thesis using n by (simp add: Atoi_def Let_def)
qed

end
