(* ===== verification/Go_Regexp.thy ===== *)
theory Go_Regexp
  imports Prelude
begin

text \<open>
  The part of Go's \<open>regexp\<close> that an anchored pattern of character classes, concatenation, \<open>*\<close>
  and \<open>{0,n}\<close> needs. \<open>lang\<close> says which texts a pattern describes, \<open>matches\<close> decides it by
  derivatives, and the two agree.
\<close>

datatype re =
    Nothing
  | Eps
  | Cls "char \<Rightarrow> bool"
  | Cat re re
  | Alt re re
  | Star re
  | UpTo nat re

fun lang :: "re \<Rightarrow> string set" where
  "lang Nothing = {}"
| "lang Eps = {[]}"
| "lang (Cls p) = {[c] | c. p c}"
| "lang (Cat r s) = {u @ v | u v. u \<in> lang r \<and> v \<in> lang s}"
| "lang (Alt r s) = lang r \<union> lang s"
| "lang (Star r) = {concat ws | ws. set ws \<subseteq> lang r}"
| "lang (UpTo n r) = {concat ws | ws. set ws \<subseteq> lang r \<and> length ws \<le> n}"

fun nullable :: "re \<Rightarrow> bool" where
  "nullable Nothing = False"
| "nullable Eps = True"
| "nullable (Cls p) = False"
| "nullable (Cat r s) = (nullable r \<and> nullable s)"
| "nullable (Alt r s) = (nullable r \<or> nullable s)"
| "nullable (Star r) = True"
| "nullable (UpTo n r) = True"

text \<open>Concatenation and alternative that drop \<open>Nothing\<close> and \<open>Eps\<close> where they can.\<close>

fun mkCat :: "re \<Rightarrow> re \<Rightarrow> re" where
  "mkCat Nothing s = Nothing"
| "mkCat Eps s = s"
| "mkCat r s = Cat r s"

fun mkAlt :: "re \<Rightarrow> re \<Rightarrow> re" where
  "mkAlt Nothing s = s"
| "mkAlt r Nothing = r"
| "mkAlt r s = Alt r s"

fun deriv :: "char \<Rightarrow> re \<Rightarrow> re" where
  "deriv c Nothing = Nothing"
| "deriv c Eps = Nothing"
| "deriv c (Cls p) = (if p c then Eps else Nothing)"
| "deriv c (Cat r s) =
     (if nullable r then mkAlt (mkCat (deriv c r) s) (deriv c s) else mkCat (deriv c r) s)"
| "deriv c (Alt r s) = mkAlt (deriv c r) (deriv c s)"
| "deriv c (Star r) = mkCat (deriv c r) (Star r)"
| "deriv c (UpTo n r) = (if n = 0 then Nothing else mkCat (deriv c r) (UpTo (n - 1) r))"

fun matches :: "re \<Rightarrow> string \<Rightarrow> bool" where
  "matches r [] = nullable r"
| "matches r (c # s) = matches (deriv c r) s"

lemma nullable_lang: "nullable r \<longleftrightarrow> [] \<in> lang r"
proof (induction r)
  case (Star r)
  have "[] = concat []" by simp
  then show ?case by (auto intro: exI [of _ "[]"])
next
  case (UpTo n r)
  show ?case by (auto intro: exI [of _ "[]"])
qed auto

lemma lang_mkCat [simp]: "lang (mkCat r s) = lang (Cat r s)"
  by (cases r) auto

lemma lang_mkAlt [simp]: "lang (mkAlt r s) = lang r \<union> lang s"
  by (cases "(r, s)" rule: mkAlt.cases) auto

text \<open>A non-empty concatenation starts inside its first non-empty part.\<close>

lemma concat_first:
  "concat ws = c # w \<Longrightarrow>
     \<exists>us u vs. ws = us @ (c # u) # vs \<and> w = u @ concat vs"
proof (induction ws)
  case (Cons x ws)
  show ?case
  proof (cases x)
    case Nil
    with Cons show ?thesis by (metis append_Cons concat.simps(2) self_append_conv2)
  next
    case (Cons d u)
    with Cons.prems have "x # ws = [] @ (c # u) # ws \<and> w = u @ concat ws" by auto
    then show ?thesis by blast
  qed
qed simp

lemma deriv_rep:
  assumes IH: "\<And>w. w \<in> lang (deriv c r) \<longleftrightarrow> c # w \<in> lang r"
  shows "(\<exists>u v. w = u @ v \<and> u \<in> lang (deriv c r) \<and> (\<exists>ws. v = concat ws \<and> set ws \<subseteq> lang r \<and> length ws \<le> n))
    \<longleftrightarrow> (\<exists>ws. c # w = concat ws \<and> set ws \<subseteq> lang r \<and> length ws \<le> Suc n)"
proof
  assume "\<exists>u v. w = u @ v \<and> u \<in> lang (deriv c r) \<and> (\<exists>ws. v = concat ws \<and> set ws \<subseteq> lang r \<and> length ws \<le> n)"
  then obtain u ws where "w = u @ concat ws" "c # u \<in> lang r" "set ws \<subseteq> lang r" "length ws \<le> n"
    using IH by auto
  then show "\<exists>ws. c # w = concat ws \<and> set ws \<subseteq> lang r \<and> length ws \<le> Suc n"
    by (intro exI [of _ "(c # u) # ws"]) auto
next
  assume "\<exists>ws. c # w = concat ws \<and> set ws \<subseteq> lang r \<and> length ws \<le> Suc n"
  then obtain ws where ws: "concat ws = c # w" "set ws \<subseteq> lang r" "length ws \<le> Suc n"
    by (elim exE conjE) simp
  obtain us u vs where split: "ws = us @ (c # u) # vs" "w = u @ concat vs"
    using concat_first [OF ws(1)] by blast
  have "c # u \<in> lang r" "set vs \<subseteq> lang r" "length vs \<le> n" using ws split by auto
  then show "\<exists>u v. w = u @ v \<and> u \<in> lang (deriv c r) \<and> (\<exists>ws. v = concat ws \<and> set ws \<subseteq> lang r \<and> length ws \<le> n)"
    using split(2) IH [of u] by blast
qed

lemma deriv_lang: "w \<in> lang (deriv c r) \<longleftrightarrow> c # w \<in> lang r"
proof (induction r arbitrary: w)
  case (Cat r s)
  have "c # w \<in> lang (Cat r s) \<longleftrightarrow>
    (\<exists>u v. w = u @ v \<and> c # u \<in> lang r \<and> v \<in> lang s) \<or> ([] \<in> lang r \<and> c # w \<in> lang s)"
    by (auto simp: Cons_eq_append_conv)
  then show ?case using Cat by (auto simp: nullable_lang)
next
  case (Star r)
  have "c # w \<in> lang (Star r) \<longleftrightarrow> (\<exists>n ws. c # w = concat ws \<and> set ws \<subseteq> lang r \<and> length ws \<le> Suc n)"
    by (auto intro: le_SucI)
  also have "\<dots> \<longleftrightarrow> (\<exists>n u v. w = u @ v \<and> u \<in> lang (deriv c r)
      \<and> (\<exists>ws. v = concat ws \<and> set ws \<subseteq> lang r \<and> length ws \<le> n))"
    using deriv_rep [of c r, OF Star] by simp
  also have "\<dots> \<longleftrightarrow> w \<in> lang (deriv c (Star r))" by auto
  finally show ?case by simp
next
  case (UpTo n r)
  show ?case
  proof (cases n)
    case (Suc m)
    then show ?thesis using deriv_rep [of c r w m, OF UpTo] by auto
  qed simp
qed auto

lemma matches_lang: "matches r s \<longleftrightarrow> s \<in> lang r"
  by (induction s arbitrary: r) (simp_all add: nullable_lang deriv_lang)

text \<open>What a pattern made of classes leaves in the text it matches.\<close>

lemma lang_concat_singletons:
  "{concat ws | ws. set ws \<subseteq> {[c] | c. p c} \<and> length ws \<le> n} = {s. list_all p s \<and> length s \<le> n}"
proof -
  have "\<exists>ws. s = concat ws \<and> set ws \<subseteq> {[c] | c. p c} \<and> length ws \<le> n"
    if "list_all p s" "length s \<le> n" for s
    using that by (intro exI [of _ "map (\<lambda>c. [c]) s"]) (auto simp: list_all_iff)
  moreover have "list_all p (concat ws) \<and> length (concat ws) = length ws"
    if "set ws \<subseteq> {[c] | c. p c}" for ws
    using that by (induction ws) auto
  ultimately show ?thesis by (auto; metis)
qed

lemma lang_Cat_Cls: "s \<in> lang (Cat (Cls p) r) \<longleftrightarrow> s \<noteq> [] \<and> p (hd s) \<and> tl s \<in> lang r"
proof
  assume "s \<noteq> [] \<and> p (hd s) \<and> tl s \<in> lang r"
  then have "s = [hd s] @ tl s \<and> [hd s] \<in> lang (Cls p) \<and> tl s \<in> lang r" by simp
  then show "s \<in> lang (Cat (Cls p) r)" unfolding lang.simps(4) by blast
qed auto

end
