(* ===== verification/Haproxy_Config.thy ===== *)
theory Haproxy_Config
  imports Routing_Table Go_Text Go_Regexp
begin

text \<open>
  The HAProxy configuration of \<open>models/haproxy_config.go\<close>: its data, the host name check with
  its regular expression, the construction from a routing table with the errors it logs, and
  what the construction keeps, drops and leaves open.
\<close>

section \<open>Data\<close>

type_synonym HAProxyInboundPort = u16
type_synonym HAProxyServer = BackendServerKey
type_synonym HAProxyBackend = "HAProxyServer list"
type_synonym HAProxyFrontend = "(SniHostname, HAProxyBackend) gomap"
type_synonym HAProxyConfig = "(HAProxyInboundPort, HAProxyFrontend) gomap"

text \<open>The dynamic value of an \<open>ErrInvalidField\<close>: a port number or a text.\<close>

datatype field_value = PortValue u16 | TextValue string

record ErrInvalidField =
  ei_Field :: string
  ei_RoutingKey :: RoutingKey
  ei_Value :: field_value

text \<open>The verb \<open>%s\<close> prints a text as it is and marks a \<open>uint16\<close> as a formatting error.\<close>

fun formatValue :: "field_value \<Rightarrow> string" where
  "formatValue (TextValue s) = s"
| "formatValue (PortValue w) = ''%!s(uint16='' @ showU16 w @ '')''"

definition ErrorText :: "ErrInvalidField \<Rightarrow> string" where
  "ErrorText err =
     ''Skipping invalid routing table entry for port: '' @ showU16 (rk_Port (ei_RoutingKey err))
     @ ''/sni_hostname: '' @ [CHR 34] @ sni_string (rk_SniHostname (ei_RoutingKey err)) @ [CHR 34]
     @ ''. Field: '' @ ei_Field err @ ''. Value: '' @ formatValue (ei_Value err) @ ''.''"

definition logError :: "string \<Rightarrow> RoutingKey \<Rightarrow> field_value \<Rightarrow> ErrInvalidField" where
  "logError field routingKey value =
     \<lparr>ei_Field = field, ei_RoutingKey = routingKey, ei_Value = value\<rparr>"

section \<open>Host names\<close>

definition dns_first :: "char \<Rightarrow> bool" where
  "dns_first c \<longleftrightarrow> (let n = (of_char c :: nat) in
     97 \<le> n \<and> n \<le> 122 \<or> 65 \<le> n \<and> n \<le> 90 \<or> 48 \<le> n \<and> n \<le> 57 \<or> n = 95)"

definition dns_rest :: "char \<Rightarrow> bool" where
  "dns_rest c \<longleftrightarrow> dns_first c \<or> c = CHR ''-''"

definition dnsLabel :: re where
  "dnsLabel = Cat (Cls dns_first) (UpTo 62 (Cls dns_rest))"

definition validDNSNameRegexp :: re where
  "validDNSNameRegexp =
     Cat dnsLabel
       (Cat (Star (Cat (Cls (\<lambda>c. c = CHR ''.'')) dnsLabel))
            (UpTo 1 (Cls (\<lambda>c. c = CHR ''.'' \<or> c = CHR ''_''))))"

definition isValidDNSName :: "string \<Rightarrow> bool" where
  "isValidDNSName hostname =
     (if length (filter (\<lambda>c. c \<noteq> CHR ''.'') hostname) > 255 then False
      else matches validDNSNameRegexp hostname)"

section \<open>Building the configuration\<close>

text \<open>The inner loop: the backends of one route that are kept, in the order visited, and the
  errors logged for the others.\<close>

fun backendsLoop :: "RoutingKey \<Rightarrow> BackendServerKey list \<Rightarrow> HAProxyBackend \<times> ErrInvalidField list" where
  "backendsLoop routingKey [] = ([], [])"
| "backendsLoop routingKey (backendKey # rest) =
     (let (backends, log) = backendsLoop routingKey rest in
      if bk_Port backendKey = 0 \<and> bk_TLSPort backendKey \<le> 0 then
        (backends, logError ''backend_configuration.port'' routingKey
                     (PortValue (bk_Port backendKey)) # log)
      else if bk_Address backendKey = '''' \<or> \<not> isValidDNSName (bk_Address backendKey) then
        (backends, logError ''backend_configuration.address'' routingKey
                     (TextValue (bk_Address backendKey)) # log)
      else if bk_TLSPort backendKey > 0 \<and> bk_InstanceID backendKey = '''' then
        (backends, logError ''backend_configuration.instance_id'' routingKey
                     (TextValue ''unset'') # log)
      else (backendKey # backends, log))"

definition serverLess :: "HAProxyServer \<Rightarrow> HAProxyServer \<Rightarrow> bool" where
  "serverLess a b =
     (if bk_Address a = bk_Address b then bk_Port a < bk_Port b
      else bk_Address a < bk_Address b)"

fun configLoop ::
  "'tag RoutingTable \<Rightarrow> RoutingKey list \<Rightarrow> HAProxyConfig \<Rightarrow> HAProxyConfig \<times> ErrInvalidField list" where
  "configLoop table [] conf = (conf, [])"
| "configLoop table (routingKey # rest) conf =
     (if rk_Port routingKey = 0 then
        (let (conf', log) = configLoop table rest conf
         in (conf', logError ''frontend_configuration.port'' routingKey
                      (PortValue (rk_Port routingKey)) # log))
      else if rk_SniHostname routingKey \<noteq> SniHostname ''''
              \<and> \<not> isValidDNSName (sni_string (rk_SniHostname routingKey)) then
        (let (conf', log) = configLoop table rest conf
         in (conf', logError ''frontend_configuration.sni_hostname'' routingKey
                      (TextValue (sni_string (rk_SniHostname routingKey))) # log))
      else
        (let (backends, blog) =
               backendsLoop routingKey (gm_keys (Backends (Get table routingKey))) in
         if length backends = 0 then
           (let (conf', log) = configLoop table rest conf
            in (conf', blog @ logError ''backend_configuration.servers'' routingKey
                                (TextValue ''[]'') # log))
         else
           (let sorted = sliceStable serverLess backends;
                frontend = (case gm_get conf (rk_Port routingKey) of
                              Some f \<Rightarrow> f | None \<Rightarrow> gm_empty);
                frontend' = gm_put (rk_SniHostname routingKey) sorted frontend;
                (conf', log) = configLoop table rest (gm_put (rk_Port routingKey) frontend' conf)
            in (conf', blog @ log))))"

definition NewHAProxyConfig :: "'tag RoutingTable \<Rightarrow> HAProxyConfig \<times> ErrInvalidField list" where
  "NewHAProxyConfig routingTable = configLoop routingTable (gm_keys (Entries routingTable)) gm_empty"

fun ContainsSNIRoutes :: "HAProxyFrontend \<Rightarrow> bool" where
  "ContainsSNIRoutes [] = False"
| "ContainsSNIRoutes ((hostname, b) # hf) =
     (if hostname \<noteq> SniHostname '''' then True else ContainsSNIRoutes hf)"

section \<open>What the host name check accepts\<close>

definition is_label :: "string \<Rightarrow> bool" where
  "is_label l \<longleftrightarrow> l \<noteq> [] \<and> dns_first (hd l) \<and> list_all dns_rest (tl l) \<and> length l \<le> 63"

definition dns_char :: "char \<Rightarrow> bool" where
  "dns_char c \<longleftrightarrow> dns_rest c \<or> c = CHR ''.''"

lemma lang_dnsLabel: "s \<in> lang dnsLabel \<longleftrightarrow> is_label s"
proof -
  have rep: "lang (UpTo 62 (Cls dns_rest)) = {s. list_all dns_rest s \<and> length s \<le> 62}"
    using lang_concat_singletons [of dns_rest 62] by simp
  show ?thesis
    unfolding dnsLabel_def is_label_def lang_Cat_Cls rep by (cases s) auto
qed

lemma lang_dotted:
  "lang (Star (Cat (Cls (\<lambda>c. c = CHR ''.'')) dnsLabel)) =
     {concat (map ((#) CHR ''.'') ls) | ls. list_all is_label ls}"
proof -
  let ?A = "lang (Cat (Cls (\<lambda>c. c = CHR ''.'')) dnsLabel)"
  have el: "w \<in> ?A \<longleftrightarrow> (\<exists>l. w = CHR ''.'' # l \<and> is_label l)" for w
    unfolding lang_Cat_Cls lang_dnsLabel by (cases w) auto
  have words: "\<exists>ls. ws = map ((#) CHR ''.'') ls \<and> list_all is_label ls" if "set ws \<subseteq> ?A" for ws
    using that
  proof (induction ws)
    case (Cons w ws)
    then obtain ls l where "ws = map ((#) CHR ''.'') ls" "list_all is_label ls"
      "w = CHR ''.'' # l" "is_label l" using el by auto
    then have "w # ws = map ((#) CHR ''.'') (l # ls) \<and> list_all is_label (l # ls)" by simp
    then show ?case by (rule exI)
  qed simp
  have labels: "set (map ((#) CHR ''.'') ls) \<subseteq> ?A" if "list_all is_label ls" for ls
    using that el by (auto simp: list_all_iff)
  show ?thesis
  proof (intro subset_antisym subsetI)
    fix s assume "s \<in> lang (Star (Cat (Cls (\<lambda>c. c = CHR ''.'')) dnsLabel))"
    then obtain ws where "s = concat ws" "set ws \<subseteq> ?A" by (auto simp del: lang.simps(4))
    with words [of ws] show "s \<in> {concat (map ((#) CHR ''.'') ls) | ls. list_all is_label ls}"
      by blast
  next
    fix s assume "s \<in> {concat (map ((#) CHR ''.'') ls) | ls. list_all is_label ls}"
    then obtain ls where "s = concat (map ((#) CHR ''.'') ls)" "list_all is_label ls" by blast
    with labels [of ls] show "s \<in> lang (Star (Cat (Cls (\<lambda>c. c = CHR ''.'')) dnsLabel))"
      unfolding lang.simps(6) by blast
  qed
qed

lemma lang_suffix:
  "lang (UpTo 1 (Cls (\<lambda>c. c = CHR ''.'' \<or> c = CHR ''_''))) = {[], ''.'', ''_''}"
proof -
  have "{s. list_all (\<lambda>c. c = CHR ''.'' \<or> c = CHR ''_'') s \<and> length s \<le> 1} = {[], ''.'', ''_''}"
    by (auto simp: le_Suc_eq length_Suc_conv)
  then show ?thesis
    using lang_concat_singletons [of "\<lambda>c. c = CHR ''.'' \<or> c = CHR ''_''" 1]
    by (simp only: lang.simps)
qed

lemma lang_validDNSName:
  "s \<in> lang validDNSNameRegexp \<longleftrightarrow>
     (\<exists>l ls suffix. s = l @ concat (map ((#) CHR ''.'') ls) @ suffix
        \<and> is_label l \<and> list_all is_label ls \<and> suffix \<in> {[], ''.'', ''_''})"
proof -
  have "s \<in> lang validDNSNameRegexp \<longleftrightarrow>
     (\<exists>l u v. s = l @ u @ v \<and> l \<in> lang dnsLabel
        \<and> u \<in> lang (Star (Cat (Cls (\<lambda>c. c = CHR ''.'')) dnsLabel))
        \<and> v \<in> lang (UpTo 1 (Cls (\<lambda>c. c = CHR ''.'' \<or> c = CHR ''_''))))"
    unfolding validDNSNameRegexp_def by (simp del: lang.simps(6,7)) blast
  then show ?thesis unfolding lang_dotted lang_suffix lang_dnsLabel by blast
qed

lemma is_label_chars: "is_label l \<Longrightarrow> c \<in> set l \<Longrightarrow> dns_char c"
  by (cases l) (auto simp: is_label_def dns_char_def dns_rest_def list_all_iff)

lemma validDNSName_chars:
  assumes "isValidDNSName h" and "c \<in> set h"
  shows "dns_char c"
proof -
  have "h \<in> lang validDNSNameRegexp"
    using assms(1) by (simp add: isValidDNSName_def matches_lang split: if_splits)
  then obtain l ls suffix where h: "h = l @ concat (map ((#) CHR ''.'') ls) @ suffix"
    and "is_label l" "list_all is_label ls" "suffix \<in> {[], ''.'', ''_''}"
    using lang_validDNSName by blast
  moreover have "dns_char CHR ''.''" "dns_char CHR ''_''"
    by (simp_all add: dns_char_def dns_rest_def dns_first_def)
  ultimately show ?thesis
    using assms(2) is_label_chars by (auto simp: list_all_iff split: if_splits)
qed

lemma validDNSName_nonempty: "isValidDNSName h \<Longrightarrow> h \<noteq> []"
  by (auto simp: isValidDNSName_def matches_lang lang_validDNSName is_label_def split: if_splits)

section \<open>The inner loop keeps exactly the valid backends\<close>

definition valid_server :: "BackendServerKey \<Rightarrow> bool" where
  "valid_server b \<longleftrightarrow> (bk_Port b \<noteq> 0 \<or> bk_TLSPort b > 0) \<and> isValidDNSName (bk_Address b)
     \<and> (bk_TLSPort b > 0 \<longrightarrow> bk_InstanceID b \<noteq> '''')"

lemma backendsLoop_filter: "fst (backendsLoop rk bs) = filter valid_server bs"
  by (induction bs)
    (auto simp: Let_def case_prod_beta valid_server_def dest: validDNSName_nonempty)

lemma backendsLoop_log:
  "length (snd (backendsLoop rk bs)) = length (filter (\<lambda>b. \<not> valid_server b) bs)
   \<and> (\<forall>e \<in> set (snd (backendsLoop rk bs)). ei_RoutingKey e = rk)"
  by (induction bs)
    (auto simp: Let_def case_prod_beta valid_server_def logError_def dest: validDNSName_nonempty)

lemma serverLess_key:
  "serverLess = (\<lambda>a b. (bk_Address a, bk_Port a) < (bk_Address b, bk_Port b))"
  by (auto simp: serverLess_def fun_eq_iff less_prod_def')

lemma sliceStable_serverLess:
  "sliceStable serverLess bs = sort_key (\<lambda>b. (bk_Address b, bk_Port b)) bs"
  unfolding serverLess_key by (rule sliceStable_sort_key)

section \<open>The outer loop\<close>

definition conf_lookup :: "HAProxyConfig \<Rightarrow> HAProxyInboundPort \<Rightarrow> SniHostname \<Rightarrow> HAProxyBackend option" where
  "conf_lookup conf p = (case gm_get conf p of None \<Rightarrow> Map.empty | Some f \<Rightarrow> gm_get f)"

definition wf_conf :: "HAProxyConfig \<Rightarrow> bool" where
  "wf_conf conf \<longleftrightarrow> gm_ok conf \<and> (\<forall>p f. gm_get conf p = Some f \<longrightarrow> gm_ok f \<and> f \<noteq> [])"

definition valid_route :: "RoutingKey \<Rightarrow> bool" where
  "valid_route rk \<longleftrightarrow> rk_Port rk \<noteq> 0 \<and>
     (rk_SniHostname rk = SniHostname '''' \<or> isValidDNSName (sni_string (rk_SniHostname rk)))"

definition kept_servers :: "'tag RoutingTable \<Rightarrow> RoutingKey \<Rightarrow> BackendServerKey list" where
  "kept_servers t rk = filter valid_server (gm_keys (Backends (Get t rk)))"

definition kept_route :: "'tag RoutingTable \<Rightarrow> RoutingKey \<Rightarrow> bool" where
  "kept_route t rk \<longleftrightarrow> valid_route rk \<and> kept_servers t rk \<noteq> []"

definition add_route ::
  "RoutingKey \<Rightarrow> HAProxyBackend \<Rightarrow> HAProxyConfig \<Rightarrow> HAProxyConfig" where
  "add_route rk servers conf =
     gm_put (rk_Port rk)
       (gm_put (rk_SniHostname rk) servers
          (case gm_get conf (rk_Port rk) of Some f \<Rightarrow> f | None \<Rightarrow> gm_empty)) conf"

lemma configLoop_Cons:
  "fst (configLoop t (rk # rks) conf) =
     fst (configLoop t rks
       (if kept_route t rk then add_route rk (sliceStable serverLess (kept_servers t rk)) conf
        else conf))"
  by (auto simp: Let_def case_prod_beta kept_route_def valid_route_def kept_servers_def add_route_def
      backendsLoop_filter)

declare configLoop.simps(2) [simp del]

lemma conf_lookup_add_route:
  "conf_lookup (add_route rk servers conf) =
     (conf_lookup conf)(rk_Port rk := (conf_lookup conf (rk_Port rk))(rk_SniHostname rk \<mapsto> servers))"
  by (auto simp: conf_lookup_def add_route_def fun_eq_iff split: option.splits)

lemma gm_put_ne_Nil [simp]: "gm_put k v m \<noteq> []"
  by (cases m) (auto simp: gm_put_def)

lemma wf_conf_add_route: "wf_conf conf \<Longrightarrow> wf_conf (add_route rk servers conf)"
  by (auto simp: wf_conf_def add_route_def split: option.splits if_splits)

lemma wf_configLoop: "wf_conf conf \<Longrightarrow> wf_conf (fst (configLoop t rks conf))"
  by (induction rks arbitrary: conf) (auto simp: configLoop_Cons wf_conf_add_route)

lemma configLoop_lookup:
  "conf_lookup (fst (configLoop t rks conf)) p h =
     (let rk = \<lparr>rk_Port = p, rk_SniHostname = h\<rparr> in
      if rk \<in> set rks \<and> kept_route t rk then Some (sliceStable serverLess (kept_servers t rk))
      else conf_lookup conf p h)"
proof (induction rks arbitrary: conf)
  case (Cons rk rks)
  have "rk = \<lparr>rk_Port = p, rk_SniHostname = h\<rparr> \<longleftrightarrow> rk_Port rk = p \<and> rk_SniHostname rk = h"
    by (cases rk) auto
  then show ?case
    by (auto simp: configLoop_Cons Cons.IH conf_lookup_add_route Let_def)
qed simp

lemma wf_NewHAProxyConfig: "wf_conf (fst (NewHAProxyConfig t))"
  unfolding NewHAProxyConfig_def
  by (rule wf_configLoop) (simp add: wf_conf_def)

lemma Get_absent: "gm_get (Entries t) rk = None \<Longrightarrow> kept_servers t rk = []"
  by (simp add: kept_servers_def Get_def gm_keys_def gm_empty_def)

lemma NewHAProxyConfig_lookup:
  "conf_lookup (fst (NewHAProxyConfig t)) p h =
     (let rk = \<lparr>rk_Port = p, rk_SniHostname = h\<rparr> in
      if kept_route t rk then Some (sliceStable serverLess (kept_servers t rk)) else None)"
proof -
  have "conf_lookup gm_empty p h = None" by (simp add: conf_lookup_def)
  moreover have "kept_route t rk \<Longrightarrow> rk \<in> set (gm_keys (Entries t))" for rk
    using Get_absent [of t rk] by (auto simp: kept_route_def gm_get_None_iff)
  ultimately show ?thesis
    by (auto simp: NewHAProxyConfig_def configLoop_lookup Let_def)
qed

text \<open>The servers of a route are the valid ones among its backends.\<close>

lemma set_kept_servers:
  "set (kept_servers t rk) = {b. lookup_backend t rk b \<noteq> None \<and> valid_server b}"
proof -
  have "set (gm_keys (Backends (Get t rk))) = {b. lookup_backend t rk b \<noteq> None}"
    by (auto simp: Get_def lookup_backend_def gm_dom [symmetric] split: option.splits)
  then show ?thesis by (auto simp: kept_servers_def)
qed

lemma distinct_kept_servers: "wf_table t \<Longrightarrow> distinct (kept_servers t rk)"
proof -
  assume "wf_table t"
  then have "gm_ok (Backends (Get t rk))"
    by (auto simp: Get_def wf_table_def wf_entry_def split: option.splits)
  then show ?thesis by (simp add: kept_servers_def gm_keys_def gm_ok_def)
qed

lemma kept_servers_same_pairs:
  assumes "wf_table t" and "wf_table t'" and "table_pairs t = table_pairs t'"
  shows "mset (kept_servers t rk) = mset (kept_servers t' rk)"
proof -
  have "lookup_backend t rk b \<noteq> None \<longleftrightarrow> lookup_backend t' rk b \<noteq> None" for b
    using assms(3) by (auto simp: table_pairs_def set_eq_iff)
  then have "set (kept_servers t rk) = set (kept_servers t' rk)"
    by (auto simp: set_kept_servers)
  then show ?thesis
    using distinct_kept_servers [OF assms(1)] distinct_kept_servers [OF assms(2)]
    by (simp add: set_eq_iff_mset_eq_distinct)
qed

section \<open>The log\<close>

lemma backendsLoop_log_empty: "snd (backendsLoop rk bs) = [] \<longleftrightarrow> list_all valid_server bs"
  using backendsLoop_log [of rk bs]
  by (metis (mono_tags, lifting) filter_empty_conv length_0_conv list_all_iff)

lemma configLoop_log_Cons:
  "snd (configLoop t (rk # rks) conf) = [] \<longleftrightarrow>
     kept_route t rk \<and> list_all valid_server (gm_keys (Backends (Get t rk)))
     \<and> snd (configLoop t rks (add_route rk (sliceStable serverLess (kept_servers t rk)) conf)) = []"
  by (auto simp: configLoop.simps(2) Let_def case_prod_beta kept_route_def valid_route_def
      kept_servers_def add_route_def backendsLoop_filter backendsLoop_log_empty)

lemma configLoop_log_empty:
  "snd (configLoop t rks conf) = [] \<longleftrightarrow>
     (\<forall>rk \<in> set rks. kept_route t rk \<and> list_all valid_server (gm_keys (Backends (Get t rk))))"
  by (induction rks arbitrary: conf) (simp_all add: configLoop_log_Cons)

lemma configLoop_log_route:
  assumes "rk \<in> set rks" and "\<not> kept_route t rk"
  shows "\<exists>e \<in> set (snd (configLoop t rks conf)). ei_RoutingKey e = rk"
  using assms
proof (induction rks arbitrary: conf)
  case (Cons rk' rks)
  show ?case
  proof (cases "rk' = rk")
    case True
    with Cons.prems(2) show ?thesis
      by (auto simp: configLoop.simps(2) Let_def case_prod_beta kept_route_def valid_route_def
          kept_servers_def backendsLoop_filter logError_def)
  next
    case False
    with Cons.prems(1) have "rk \<in> set rks" by simp
    then have IH: "\<exists>e \<in> set (snd (configLoop t rks c)). ei_RoutingKey e = rk" for c
      using Cons.IH Cons.prems(2) by blast
    show ?thesis
      using IH [of conf] IH [of "add_route rk' (sliceStable serverLess (kept_servers t rk')) conf"]
      by (auto simp: configLoop.simps(2) Let_def case_prod_beta kept_servers_def add_route_def
          backendsLoop_filter)
  qed
qed simp

section \<open>Correctness of the configuration\<close>

text \<open>(C8) \<open>NewHAProxyConfig\<close> builds exactly the valid part of the table: under port \<open>p\<close> and
  host \<open>h\<close> there is a backend if and only if the port is not zero, the host is empty or a valid
  name, and the route has a valid server; it lists each valid server of the route once, sorted
  by address and then port, and no frontend is empty.\<close>

theorem haproxy_config_exact:
  assumes "wf_table t" and "NewHAProxyConfig t = (conf, log)"
  shows "wf_conf conf \<and>
    (\<forall>p h. let rk = \<lparr>rk_Port = p, rk_SniHostname = h\<rparr>;
               servers = {b. lookup_backend t rk b \<noteq> None \<and> valid_server b} in
       if valid_route rk \<and> servers \<noteq> {}
       then \<exists>ss. conf_lookup conf p h = Some ss \<and> distinct ss \<and> set ss = servers
              \<and> sorted (map (\<lambda>b. (bk_Address b, bk_Port b)) ss)
       else conf_lookup conf p h = None)"
proof (intro conjI allI)
  have conf: "conf = fst (NewHAProxyConfig t)" using assms(2) by simp
  show "wf_conf conf" unfolding conf by (rule wf_NewHAProxyConfig)
  fix p h
  let ?rk = "\<lparr>rk_Port = p, rk_SniHostname = h\<rparr>"
  have "kept_servers t ?rk \<noteq> [] \<longleftrightarrow> {b. lookup_backend t ?rk b \<noteq> None \<and> valid_server b} \<noteq> {}"
    using set_kept_servers [of t ?rk] by (metis set_empty)
  then show "let rk = ?rk; servers = {b. lookup_backend t rk b \<noteq> None \<and> valid_server b} in
       if valid_route rk \<and> servers \<noteq> {}
       then \<exists>ss. conf_lookup conf p h = Some ss \<and> distinct ss \<and> set ss = servers
              \<and> sorted (map (\<lambda>b. (bk_Address b, bk_Port b)) ss)
       else conf_lookup conf p h = None"
    unfolding Let_def conf NewHAProxyConfig_lookup kept_route_def
    using distinct_kept_servers [OF assms(1), of ?rk] set_kept_servers [of t ?rk]
    by (simp add: sliceStable_serverLess)
qed

lemma sample_server_valid: "valid_server (info_key (sample_info 3))"
proof -
  have "isValidDNSName ''10.0.0.1''"
    by (simp add: isValidDNSName_def validDNSNameRegexp_def dnsLabel_def dns_first_def dns_rest_def
        Let_def)
  then show ?thesis
    by (simp add: valid_server_def info_key_def sample_info_def serverKeyDetailsFromInfo_def)
qed

theorem haproxy_config_exact_witness:
  "conf_lookup (fst (NewHAProxyConfig sample_table)) 2222 (SniHostname '''')
     = Some [info_key (sample_info 3)]"
proof -
  have servers: "{b. lookup_backend sample_table sample_key b \<noteq> None \<and> valid_server b} =
      {info_key (sample_info 3)}"
    using sample_server_valid by (auto simp: lookup_sample_table)
  have key: "\<lparr>rk_Port = 2222, rk_SniHostname = SniHostname ''''\<rparr> = sample_key"
    by (simp add: sample_key_def)
  have route: "valid_route sample_key" by (simp add: valid_route_def sample_key_def)
  have "\<exists>ss. conf_lookup (fst (NewHAProxyConfig sample_table)) 2222 (SniHostname '''') = Some ss
      \<and> distinct ss \<and> set ss = {info_key (sample_info 3)}"
    using haproxy_config_exact [OF wf_sample_table prod.collapse [symmetric], THEN conjunct2,
        THEN spec, THEN spec, of 2222 "SniHostname ''''"] route
    unfolding Let_def key servers by auto
  then show ?thesis using distinct_set_singleton by metis
qed

text \<open>The configuration is a function of the set of backends in the table: two well-formed
  tables with the same backends, whatever their details and the order their maps are visited in,
  give for every port and host the same servers up to order, and the same list when no two valid
  servers of a route share address and port.\<close>

lemma config_determined_by_backends:
  assumes "wf_table t" and "wf_table t'" and "table_pairs t = table_pairs t'"
  shows "rel_option (\<lambda>ss ss'. mset ss = mset ss')
      (conf_lookup (fst (NewHAProxyConfig t)) p h) (conf_lookup (fst (NewHAProxyConfig t')) p h)
    \<and> (inj_on (\<lambda>b. (bk_Address b, bk_Port b))
         {b. lookup_backend t \<lparr>rk_Port = p, rk_SniHostname = h\<rparr> b \<noteq> None \<and> valid_server b} \<longrightarrow>
       conf_lookup (fst (NewHAProxyConfig t)) p h = conf_lookup (fst (NewHAProxyConfig t')) p h)"
proof -
  let ?rk = "\<lparr>rk_Port = p, rk_SniHostname = h\<rparr>"
  have ms: "mset (kept_servers t ?rk) = mset (kept_servers t' ?rk)"
    by (rule kept_servers_same_pairs [OF assms])
  then have kept: "kept_route t ?rk \<longleftrightarrow> kept_route t' ?rk"
    unfolding kept_route_def by (metis mset_zero_iff)
  have "kept_servers t ?rk = [] \<longleftrightarrow> kept_servers t' ?rk = []" using ms by (metis mset_zero_iff)
  moreover have "sliceStable serverLess (kept_servers t ?rk) = sliceStable serverLess (kept_servers t' ?rk)"
    if "inj_on (\<lambda>b. (bk_Address b, bk_Port b)) (set (kept_servers t ?rk))"
    unfolding sliceStable_serverLess using sort_key_perm [OF ms that] .
  ultimately show ?thesis
    unfolding NewHAProxyConfig_lookup Let_def set_kept_servers [symmetric]
    using kept ms by (simp add: mset_sliceStable)
qed

text \<open>Two orders of one map with a single backend.\<close>

lemma config_determined_by_backends_witness:
  "conf_lookup (fst (NewHAProxyConfig sample_table)) 2222 (SniHostname '''')
   = conf_lookup (fst (NewHAProxyConfig
       (fst (UpsertBackendServerKey (<) 9 sample_key (sample_info 5) sample_table))))
     2222 (SniHostname '''')"
proof -
  let ?t = "fst (UpsertBackendServerKey (<) 9 sample_key (sample_info 5) sample_table)"
  have "(sample_key, info_key (sample_info 5)) \<in> table_pairs sample_table"
    by (simp add: table_pairs_def lookup_sample_table sample_info_key [of 5] sample_info_key [of 3])
  then have "table_pairs sample_table = table_pairs ?t" by (simp add: upsert_pairs insert_absorb)
  moreover have "inj_on (\<lambda>b. (bk_Address b, bk_Port b))
      {b. lookup_backend sample_table \<lparr>rk_Port = 2222, rk_SniHostname = SniHostname ''''\<rparr> b \<noteq> None
          \<and> valid_server b}"
    by (auto simp: inj_on_def lookup_sample_table)
  ultimately show ?thesis
    using config_determined_by_backends [OF wf_sample_table wf_upsert [OF wf_sample_table]] by blast
qed

text \<open>The sort does not make the result deterministic: servers that share address and port
  and differ in TLS port or instance keep the order of the map iteration, so one and the same
  table gives different server lists in different runs.\<close>

definition tie_server :: "int \<Rightarrow> string \<Rightarrow> BackendServerKey" where
  "tie_server tls inst =
     \<lparr>bk_Address = ''a'', bk_Port = 0, bk_TLSPort = tls, bk_InstanceID = inst\<rparr>"

definition tie_table :: "BackendServerKey list \<Rightarrow> nat RoutingTable" where
  "tie_table bs = \<lparr>Entries = [(sample_key, \<lparr>Backends = map (\<lambda>b. (b, info_details 0 (sample_info 0))) bs\<rparr>)]\<rparr>"

lemma server_order_not_determined:
  "let b1 = tie_server 61001 ''i''; b2 = tie_server 61002 ''j'';
       t = tie_table [b1, b2]; t' = tie_table [b2, b1] in
   wf_table t \<and> wf_table t' \<and> lookup_backend t = lookup_backend t'
   \<and> conf_lookup (fst (NewHAProxyConfig t)) 2222 (SniHostname '''') = Some [b1, b2]
   \<and> conf_lookup (fst (NewHAProxyConfig t')) 2222 (SniHostname '''') = Some [b2, b1]"
proof -
  have ok: "isValidDNSName ''a''"
    by (simp add: isValidDNSName_def validDNSNameRegexp_def dnsLabel_def dns_first_def dns_rest_def
        Let_def)
  have kept: "kept_servers (tie_table bs) sample_key = filter valid_server bs" for bs
    by (simp add: kept_servers_def tie_table_def Get_def gm_keys_def comp_def)
  have key: "\<lparr>rk_Port = 2222, rk_SniHostname = SniHostname ''''\<rparr> = sample_key"
    by (simp add: sample_key_def)
  have valid: "valid_server (tie_server 61001 ''i'')" "valid_server (tie_server 61002 ''j'')"
    using ok by (simp_all add: valid_server_def tie_server_def)
  have less: "\<not> serverLess (tie_server 61001 ''i'') (tie_server 61002 ''j'')"
    "\<not> serverLess (tie_server 61002 ''j'') (tie_server 61001 ''i'')"
    by (simp_all add: serverLess_def tie_server_def)
  have route: "valid_route sample_key" by (simp add: valid_route_def sample_key_def)
  have ne: "tie_server 61001 ''i'' \<noteq> tie_server 61002 ''j''" by (simp add: tie_server_def)
  show ?thesis
    unfolding Let_def NewHAProxyConfig_lookup key kept_route_def kept
    using valid less route ne
    by (auto simp: tie_table_def wf_table_def wf_entry_def lookup_backend_def fun_eq_iff)
qed

text \<open>(C28) \<open>isValidDNSName\<close> decides exactly this: a name of labels joined by single dots, each of
  one to 63 letters, digits, underscores and, except first, hyphens, with at most one dot or
  underscore after the last, of at most 255 bytes without the dots.\<close>

theorem isValidDNSName_iff:
  "isValidDNSName s \<longleftrightarrow>
     length (filter (\<lambda>c. c \<noteq> CHR ''.'') s) \<le> 255 \<and>
     (\<exists>l ls suffix. s = l @ concat (map ((#) CHR ''.'') ls) @ suffix
        \<and> is_label l \<and> list_all is_label ls \<and> suffix \<in> {[], ''.'', ''_''})"
  unfolding isValidDNSName_def matches_lang lang_validDNSName by auto

text \<open>Nothing is left out silently: the log is empty exactly when every route and every
  backend of the table is in the configuration, and each route left out is named in the log.\<close>

lemma skipped_is_logged:
  assumes "wf_table t" and "NewHAProxyConfig t = (conf, log)"
  shows "(log = [] \<longleftrightarrow>
      (\<forall>(rk, b) \<in> table_pairs t. valid_route rk \<and> valid_server b))
    \<and> (\<forall>rk \<in> fst ` table_pairs t.
         conf_lookup conf (rk_Port rk) (rk_SniHostname rk) = None \<longrightarrow>
         (\<exists>e \<in> set log. ei_RoutingKey e = rk))"
proof -
  have keys: "set (gm_keys (Entries t)) = fst ` table_pairs t"
    using route_keys [OF assms(1)] by (simp add: gm_dom)
  have bs: "set (gm_keys (Backends (Get t rk))) = {b. (rk, b) \<in> table_pairs t}" for rk
    by (auto simp: Get_def lookup_backend_def table_pairs_def gm_dom [symmetric] split: option.splits)
  have kept: "kept_route t rk \<and> list_all valid_server (gm_keys (Backends (Get t rk))) \<longleftrightarrow>
      valid_route rk \<and> (\<forall>b. (rk, b) \<in> table_pairs t \<longrightarrow> valid_server b)"
    if mem: "rk \<in> fst ` table_pairs t" for rk
  proof -
    obtain b where "(rk, b) \<in> table_pairs t" using mem by auto
    then show ?thesis
      using bs [of rk] by (auto simp: kept_route_def kept_servers_def list_all_iff filter_empty_conv)
  qed
  have log: "log = snd (configLoop t (gm_keys (Entries t)) gm_empty)"
    using assms(2) by (simp add: NewHAProxyConfig_def)
  have "log = [] \<longleftrightarrow> (\<forall>rk \<in> fst ` table_pairs t.
      valid_route rk \<and> (\<forall>b. (rk, b) \<in> table_pairs t \<longrightarrow> valid_server b))"
    unfolding log configLoop_log_empty keys using kept by blast
  also have "\<dots> \<longleftrightarrow> (\<forall>(rk, b) \<in> table_pairs t. valid_route rk \<and> valid_server b)"
    by (auto; force)
  moreover have "\<exists>e \<in> set log. ei_RoutingKey e = rk"
    if "rk \<in> fst ` table_pairs t" "conf_lookup conf (rk_Port rk) (rk_SniHostname rk) = None" for rk
  proof -
    have "\<not> kept_route t rk"
      using that(2) assms(2) NewHAProxyConfig_lookup [of t "rk_Port rk" "rk_SniHostname rk"]
      by (auto simp: Let_def RoutingKey_eta split: if_splits)
    then show ?thesis unfolding log using that(1) keys by (intro configLoop_log_route) simp_all
  qed
  ultimately show ?thesis by blast
qed

lemma skipped_is_logged_witness:
  "snd (NewHAProxyConfig sample_table) = []"
proof -
  have "\<forall>(rk, b) \<in> table_pairs sample_table. valid_route rk \<and> valid_server b"
    using sample_server_valid
    by (auto simp: table_pairs_def lookup_sample_table valid_route_def sample_key_def split: if_splits)
  then show ?thesis
    using skipped_is_logged [OF wf_sample_table prod.collapse [symmetric]] by blast
qed

end
