(* ===== verification/File_Utils.thy ===== *)
theory File_Utils
  imports Prelude
begin

text \<open>
  Files: the calls of package \<open>os\<close> the program makes, on a file system that may fail at any
  call, and the helpers of \<open>utils/fileutils.go\<close> on top of them.

  A world holds the files and the faults to come: each call takes the next fault, no fault once
  the list is used up. A write may stop after some of its bytes.
\<close>

datatype fault = Fine | Fails go_error | PartialWrite nat go_error

record os_world =
  fs_files :: "string \<Rightarrow> string option"
  fs_faults :: "fault list"

definition takeFault :: "'a os_world_scheme \<Rightarrow> fault \<times> 'a os_world_scheme" where
  "takeFault w = (case fs_faults w of [] \<Rightarrow> (Fine, w) | f # fs \<Rightarrow> (f, w\<lparr>fs_faults := fs\<rparr>))"

fun fault_error :: "fault \<Rightarrow> go_error option" where
  "fault_error Fine = None"
| "fault_error (Fails e) = Some e"
| "fault_error (PartialWrite n e) = Some e"

definition ENOENT :: "string \<Rightarrow> go_error" where
  "ENOENT path = ''open '' @ path @ '': no such file or directory''"

definition os_ReadFile :: "string \<Rightarrow> 'a os_world_scheme \<Rightarrow> (go_error + string) \<times> 'a os_world_scheme" where
  "os_ReadFile path w =
     (let (f, w') = takeFault w in
      case fault_error f of
        Some e \<Rightarrow> (Inl e, w')
      | None \<Rightarrow> (case fs_files w' path of None \<Rightarrow> (Inl (ENOENT path), w') | Some c \<Rightarrow> (Inr c, w')))"

text \<open>\<open>os.Create\<close> truncates; a write to the file just created leaves what was written.\<close>

definition os_Create :: "string \<Rightarrow> 'a os_world_scheme \<Rightarrow> go_error option \<times> 'a os_world_scheme" where
  "os_Create path w =
     (let (f, w') = takeFault w in
      case fault_error f of
        Some e \<Rightarrow> (Some e, w')
      | None \<Rightarrow> (None, w'\<lparr>fs_files := (fs_files w')(path \<mapsto> '''')\<rparr>))"

definition file_Write :: "string \<Rightarrow> string \<Rightarrow> 'a os_world_scheme \<Rightarrow> go_error option \<times> 'a os_world_scheme" where
  "file_Write path data w =
     (let (f, w') = takeFault w in
      case f of
        Fine \<Rightarrow> (None, w'\<lparr>fs_files := (fs_files w')(path \<mapsto> data)\<rparr>)
      | Fails e \<Rightarrow> (Some e, w')
      | PartialWrite n e \<Rightarrow> (Some e, w'\<lparr>fs_files := (fs_files w')(path \<mapsto> take n data)\<rparr>))"

definition file_Close :: "'a os_world_scheme \<Rightarrow> go_error option \<times> 'a os_world_scheme" where
  "file_Close w = (let (f, w') = takeFault w in (fault_error f, w'))"

definition os_Rename :: "string \<Rightarrow> string \<Rightarrow> 'a os_world_scheme \<Rightarrow> go_error option \<times> 'a os_world_scheme" where
  "os_Rename src dst w =
     (let (f, w') = takeFault w in
      case fault_error f of
        Some e \<Rightarrow> (Some e, w')
      | None \<Rightarrow> (case fs_files w' src of
          None \<Rightarrow> (Some (ENOENT src), w')
        | Some c \<Rightarrow> (None, w'\<lparr>fs_files := (fs_files w')(src := None, dst \<mapsto> c)\<rparr>)))"

definition os_Stat :: "string \<Rightarrow> 'a os_world_scheme \<Rightarrow> go_error option \<times> 'a os_world_scheme" where
  "os_Stat path w =
     (let (f, w') = takeFault w in
      case fault_error f of
        Some e \<Rightarrow> (Some e, w')
      | None \<Rightarrow> (if fs_files w' path = None then Some (ENOENT path) else None, w'))"

text \<open>\<open>os.IsExist\<close> recognises the texts of \<open>EEXIST\<close> and \<open>ENOTEMPTY\<close>.\<close>

definition os_IsExist :: "go_error \<Rightarrow> bool" where
  "os_IsExist e \<longleftrightarrow> e = ''file exists'' \<or> e = ''directory not empty''"

section \<open>utils/fileutils.go\<close>

definition WriteToFile ::
  "string \<Rightarrow> string \<Rightarrow> 'a os_world_scheme \<Rightarrow> go_error option \<times> 'a os_world_scheme" where
  "WriteToFile data fileName w =
     (case os_Create fileName w of
        (Some e, w1) \<Rightarrow> (Some e, w1)
      | (None, w1) \<Rightarrow>
          (case file_Write fileName data w1 of
             (Some e, w2) \<Rightarrow> (Some e, w2)
           | (None, w2) \<Rightarrow>
               (case file_Close w2 of
                  (Some e, w3) \<Rightarrow> (Some e, w3)
                | (None, w3) \<Rightarrow> (None, w3))))"

definition CopyFile ::
  "string \<Rightarrow> string \<Rightarrow> 'a os_world_scheme \<Rightarrow> go_error option \<times> 'a os_world_scheme" where
  "CopyFile src dest w =
     (case os_ReadFile src w of
        (Inl e, w1) \<Rightarrow> (Some e, w1)
      | (Inr data, w1) \<Rightarrow> WriteToFile data dest w1)"

definition FileExists :: "string \<Rightarrow> 'a os_world_scheme \<Rightarrow> bool \<times> 'a os_world_scheme" where
  "FileExists fileName w =
     (case os_Stat fileName w of
        (None, w1) \<Rightarrow> (True, w1)
      | (Some e, w1) \<Rightarrow> (os_IsExist e, w1))"

section \<open>What the calls do\<close>

lemma takeFault_frame [simp]:
  "fs_files (snd (takeFault w)) = fs_files w"
  "os_world.more (snd (takeFault w)) = os_world.more w"
  by (auto simp: takeFault_def split: list.splits)

lemma takeFault_none [simp]: "fs_faults w = [] \<Longrightarrow> takeFault w = (Fine, w)"
  by (simp add: takeFault_def)

lemma ReadFile_frame [simp]:
  "fs_files (snd (os_ReadFile p w)) = fs_files w"
  "os_world.more (snd (os_ReadFile p w)) = os_world.more w"
  by (auto simp: os_ReadFile_def Let_def case_prod_beta split: option.splits)

lemma ReadFile_Inr: "fst (os_ReadFile p w) = Inr c \<Longrightarrow> fs_files w p = Some c"
  by (auto simp: os_ReadFile_def Let_def case_prod_beta split: option.splits)

text \<open>A write touches the named file only, and on success leaves exactly the data there.\<close>

lemma WriteToFile_frame:
  "p \<noteq> f \<Longrightarrow> fs_files (snd (WriteToFile data f w)) p = fs_files w p"
  "os_world.more (snd (WriteToFile data f w)) = os_world.more w"
  by (auto simp: WriteToFile_def os_Create_def file_Write_def file_Close_def Let_def case_prod_beta
      split: option.splits fault.splits)

lemma WriteToFile_ok: "fst (WriteToFile data f w) = None \<Longrightarrow> fs_files (snd (WriteToFile data f w)) f = Some data"
  by (auto simp: WriteToFile_def os_Create_def file_Write_def file_Close_def Let_def case_prod_beta
      split: option.splits fault.splits)

text \<open>After a failed write the file is as before or holds a prefix of the data.\<close>

lemma WriteToFile_prefix:
  "fs_files (snd (WriteToFile data f w)) f = fs_files w f
   \<or> (\<exists>n. fs_files (snd (WriteToFile data f w)) f = Some (take n data))"
proof -
  have "fs_files (snd (file_Close v)) f = fs_files v f" for v :: "'a os_world_scheme"
    by (simp add: file_Close_def Let_def case_prod_beta)
  moreover have "\<exists>n. fs_files (snd (file_Write f data v)) f = Some (take n data)"
    if "fs_files v f = Some ''''" for v :: "'a os_world_scheme"
    using that
    by (auto simp: file_Write_def Let_def case_prod_beta split: fault.splits
        intro: exI [of _ "length data"] exI [of _ 0])
  moreover have "fs_files (snd (os_Create f w)) f =
      (if fst (os_Create f w) = None then Some '''' else fs_files w f)"
    by (auto simp: os_Create_def Let_def case_prod_beta split: option.splits)
  ultimately show ?thesis
    by (auto simp: WriteToFile_def split: prod.splits option.splits) (metis snd_conv fst_conv)+
qed

lemma Rename_frame:
  "p \<notin> {src, dst} \<Longrightarrow> fs_files (snd (os_Rename src dst w)) p = fs_files w p"
  "os_world.more (snd (os_Rename src dst w)) = os_world.more w"
  by (auto simp: os_Rename_def Let_def case_prod_beta split: option.splits)

lemma Rename_err: "fst (os_Rename src dst w) \<noteq> None \<Longrightarrow> fs_files (snd (os_Rename src dst w)) = fs_files w"
  by (auto simp: os_Rename_def Let_def case_prod_beta split: option.splits)

lemma Rename_ok:
  "fst (os_Rename src dst w) = None \<Longrightarrow> src \<noteq> dst \<Longrightarrow>
     fs_files (snd (os_Rename src dst w)) dst = fs_files w src
     \<and> fs_files (snd (os_Rename src dst w)) src = None"
  by (auto simp: os_Rename_def Let_def case_prod_beta split: option.splits)

lemma no_faults [simp]:
  assumes "fs_faults w = []"
  shows "os_ReadFile p w = (case fs_files w p of None \<Rightarrow> Inl (ENOENT p) | Some c \<Rightarrow> Inr c, w)"
    and "WriteToFile data f w = (None, w\<lparr>fs_files := (fs_files w)(f \<mapsto> data)\<rparr>)"
    and "FileExists f w = (fs_files w f \<noteq> None, w)"
  using assms
  by (auto simp: os_ReadFile_def WriteToFile_def FileExists_def os_Create_def file_Write_def
      file_Close_def os_Stat_def os_IsExist_def ENOENT_def split: option.splits)

lemma no_faults_Rename [simp]:
  "fs_faults w = [] \<Longrightarrow> fs_files w src = Some c \<Longrightarrow>
     os_Rename src dst w = (None, w\<lparr>fs_files := (fs_files w)(src := None, dst \<mapsto> c)\<rparr>)"
  by (simp add: os_Rename_def)

lemma FileExists_frame [simp]:
  "fs_files (snd (FileExists f w)) = fs_files w"
  "os_world.more (snd (FileExists f w)) = os_world.more w"
  by (auto simp: FileExists_def os_Stat_def Let_def case_prod_beta split: option.splits)

end
