(* ===== verification/Router_Config.thy ===== *)
theory Router_Config
  imports File_Utils Go_Text
begin

text \<open>
  The configuration of \<open>config/config.go\<close>. The YAML decoder is the parameter \<open>unmarshal\<close>, from
  the file and the zero value; it is handed the address of the pointer \<open>c\<close>, so it may also leave the
  pointer \<open>nil\<close> (a document that is \<open>null\<close>), here \<open>Inr None\<close>, and the next line panics. The cryptographic part of the standard library, \<open>pem.Decode\<close>,
  \<open>pem.Encode\<close>, \<open>x509.ParseCertificate\<close> and \<open>tls.X509KeyPair\<close>, is the record \<open>crypto\<close>.
\<close>

section \<open>Data\<close>

record RoutingAPIConfig =
  api_URI :: string
  api_Port :: u16
  api_AuthDisabled :: bool
  api_ClientCertificatePath :: string
  api_ClientPrivateKeyPath :: string
  api_CACertificatePath :: string

record OAuthConfig =
  oa_TokenEndpoint :: string
  oa_Port :: u16
  oa_SkipSSLValidation :: bool
  oa_ClientName :: string
  oa_ClientSecret :: string
  oa_CACerts :: string

record BackendTLSConfig =
  tls_Enabled :: bool
  tls_CACertificatePath :: string
  tls_ClientCertAndKeyPath :: string

record Config =
  cfg_OAuth :: OAuthConfig
  cfg_RoutingAPI :: RoutingAPIConfig
  cfg_HaProxyPidFile :: string
  cfg_IsolationSegments :: "string list"
  cfg_ReservedSystemComponentPorts :: "u16 list"
  cfg_DrainWaitDuration :: duration
  cfg_BackendTLS :: BackendTLSConfig

definition DrainWaitDefault :: duration where "DrainWaitDefault = 20 * second"

definition emptyConfig :: Config where
  "emptyConfig =
     \<lparr>cfg_OAuth = \<lparr>oa_TokenEndpoint = '''', oa_Port = 0, oa_SkipSSLValidation = False,
        oa_ClientName = '''', oa_ClientSecret = '''', oa_CACerts = ''''\<rparr>,
      cfg_RoutingAPI = \<lparr>api_URI = '''', api_Port = 0, api_AuthDisabled = False,
        api_ClientCertificatePath = '''', api_ClientPrivateKeyPath = '''', api_CACertificatePath = ''''\<rparr>,
      cfg_HaProxyPidFile = '''', cfg_IsolationSegments = [], cfg_ReservedSystemComponentPorts = [],
      cfg_DrainWaitDuration = 0,
      cfg_BackendTLS = \<lparr>tls_Enabled = False, tls_CACertificatePath = '''', tls_ClientCertAndKeyPath = ''''\<rparr>\<rparr>"

record pem_block =
  pb_Type :: string
  pb_Headers :: "(string \<times> string) list"
  pb_Bytes :: string

record crypto =
  pem_Decode :: "string \<Rightarrow> pem_block option \<times> string"
  pem_Encode :: "pem_block \<Rightarrow> go_error + string"
  x509_ParseCertificate :: "string \<Rightarrow> go_error option"
  tls_X509KeyPair :: "string \<Rightarrow> string \<Rightarrow> go_error option"

datatype config_error =
    CannotRead go_error
  | CannotUnmarshal go_error
  | NilConfigPanic
  | PidFileRequired
  | InvalidPEMBlock string
  | UnexpectedHeaders string "(string \<times> string) list"
  | UnexpectedBlockType string string
  | BadCertificate string go_error
  | NoCACertificates
  | InvalidPEMCertificate string
  | CannotEncodeCert go_error
  | InvalidPEMPrivateKey string
  | CannotEncodeKey go_error
  | UnexpectedTrailingData string
  | BadKeyPair string go_error

section \<open>Reading the configuration\<close>

text \<open>The checks of the CA certificate and of the client certificate and key.\<close>

definition checkCACertificate ::
  "crypto \<Rightarrow> string \<Rightarrow> 'a os_world_scheme \<Rightarrow> config_error option \<times> 'a os_world_scheme" where
  "checkCACertificate C path w =
     (if path \<noteq> '''' then
        (case os_ReadFile path w of
           (Inl err, w1) \<Rightarrow> (Some (CannotRead err), w1)
         | (Inr raw, w1) \<Rightarrow>
             (let pemData = TrimSpace raw in
              if length pemData > 0 then
                (case fst (pem_Decode C pemData) of
                   None \<Rightarrow> (Some (InvalidPEMBlock path), w1)
                 | Some block \<Rightarrow>
                     if length (pb_Headers block) \<noteq> 0 then (Some (UnexpectedHeaders path (pb_Headers block)), w1)
                     else if pb_Type block \<noteq> ''CERTIFICATE'' then (Some (UnexpectedBlockType (pb_Type block) path), w1)
                     else (case x509_ParseCertificate C (pb_Bytes block) of
                             Some err \<Rightarrow> (Some (BadCertificate path err), w1)
                           | None \<Rightarrow> (None, w1)))
              else (None, w1)))
      else (Some NoCACertificates, w))"

definition checkClientCertAndKey ::
  "crypto \<Rightarrow> string \<Rightarrow> 'a os_world_scheme \<Rightarrow> config_error option \<times> 'a os_world_scheme" where
  "checkClientCertAndKey C path w =
     (if path \<noteq> '''' then
        (case os_ReadFile path w of
           (Inl err, w1) \<Rightarrow> (Some (CannotRead err), w1)
         | (Inr raw, w1) \<Rightarrow>
             (let (certBlock, rest1) = pem_Decode C (TrimSpace raw) in
              case certBlock of
                None \<Rightarrow> (Some (InvalidPEMCertificate path), w1)
              | Some cert \<Rightarrow>
             (case pem_Encode C cert of
                Inl err \<Rightarrow> (Some (CannotEncodeCert err), w1)
              | Inr certPEM \<Rightarrow>
             (let (keyBlock, rest2) = pem_Decode C (TrimSpace rest1) in
              case keyBlock of
                None \<Rightarrow> (Some (InvalidPEMPrivateKey path), w1)
              | Some key \<Rightarrow>
             (case pem_Encode C key of
                Inl err \<Rightarrow> (Some (CannotEncodeKey err), w1)
              | Inr keyPEM \<Rightarrow>
                  if length rest2 > 0 then (Some (UnexpectedTrailingData path), w1)
                  else (case tls_X509KeyPair C certPEM keyPEM of
                          Some err \<Rightarrow> (Some (BadKeyPair path err), w1)
                        | None \<Rightarrow> (None, w1)))))))
      else (None, w))"

definition initConfigFromFile ::
  "crypto \<Rightarrow> (string \<Rightarrow> Config \<Rightarrow> go_error + Config option) \<Rightarrow> string \<Rightarrow> Config \<Rightarrow> 'a os_world_scheme
   \<Rightarrow> (config_error + Config) \<times> 'a os_world_scheme" where
  "initConfigFromFile C unmarshal path c0 w =
     (case os_ReadFile path w of
        (Inl e, w1) \<Rightarrow> (Inl (CannotRead e), w1)
      | (Inr b, w1) \<Rightarrow>
     (case unmarshal b c0 of
        Inl e \<Rightarrow> (Inl (CannotUnmarshal e), w1)
      | Inr None \<Rightarrow> (Inl NilConfigPanic, w1)
      | Inr (Some c) \<Rightarrow>
          if cfg_HaProxyPidFile c = '''' then (Inl PidFileRequired, w1)
          else
            let c1 = (if cfg_DrainWaitDuration c < 0 then c\<lparr>cfg_DrainWaitDuration := DrainWaitDefault\<rparr> else c) in
            if tls_Enabled (cfg_BackendTLS c1) then
              (case checkCACertificate C (tls_CACertificatePath (cfg_BackendTLS c1)) w1 of
                 (Some e, w2) \<Rightarrow> (Inl e, w2)
               | (None, w2) \<Rightarrow>
                   (case checkClientCertAndKey C (tls_ClientCertAndKeyPath (cfg_BackendTLS c1)) w2 of
                      (Some e, w3) \<Rightarrow> (Inl e, w3)
                    | (None, w3) \<Rightarrow> (Inr c1, w3)))
            else (Inr (c1\<lparr>cfg_BackendTLS := (cfg_BackendTLS c1)
                    \<lparr>tls_CACertificatePath := '''', tls_ClientCertAndKeyPath := ''''\<rparr>\<rparr>), w1)))"

definition Config_New ::
  "crypto \<Rightarrow> (string \<Rightarrow> Config \<Rightarrow> go_error + Config option) \<Rightarrow> string \<Rightarrow> 'a os_world_scheme
   \<Rightarrow> (config_error + Config) \<times> 'a os_world_scheme" where
  "Config_New C unmarshal path w =
     (case initConfigFromFile C unmarshal path emptyConfig w of
        (Inl err, w1) \<Rightarrow> (Inl err, w1)
      | (Inr c, w1) \<Rightarrow> (Inr c, w1))"

section \<open>Which configurations are accepted\<close>

text \<open>A CA file is blank or starts with a certificate; a client file is exactly a certificate and
  a key that belong together.\<close>

definition ca_file_ok :: "crypto \<Rightarrow> string \<Rightarrow> bool" where
  "ca_file_ok C raw \<longleftrightarrow> TrimSpace raw = '''' \<or> (\<exists>block rest. pem_Decode C (TrimSpace raw) = (Some block, rest)
     \<and> pb_Headers block = [] \<and> pb_Type block = ''CERTIFICATE'' \<and> x509_ParseCertificate C (pb_Bytes block) = None)"

definition client_file_ok :: "crypto \<Rightarrow> string \<Rightarrow> bool" where
  "client_file_ok C raw \<longleftrightarrow> (\<exists>cert rest1 key certPEM keyPEM.
     pem_Decode C (TrimSpace raw) = (Some cert, rest1) \<and> pem_Encode C cert = Inr certPEM
     \<and> pem_Decode C (TrimSpace rest1) = (Some key, '''') \<and> pem_Encode C key = Inr keyPEM
     \<and> tls_X509KeyPair C certPEM keyPEM = None)"

definition tls_files_ok :: "crypto \<Rightarrow> (string \<Rightarrow> string option) \<Rightarrow> BackendTLSConfig \<Rightarrow> bool" where
  "tls_files_ok C files t \<longleftrightarrow>
     tls_CACertificatePath t \<noteq> ''''
     \<and> (\<exists>raw. files (tls_CACertificatePath t) = Some raw \<and> ca_file_ok C raw)
     \<and> (tls_ClientCertAndKeyPath t = ''''
        \<or> (\<exists>raw. files (tls_ClientCertAndKeyPath t) = Some raw \<and> client_file_ok C raw))"

definition normalised :: "Config \<Rightarrow> Config" where
  "normalised c = c\<lparr>
     cfg_DrainWaitDuration := (if cfg_DrainWaitDuration c < 0 then 20 * second else cfg_DrainWaitDuration c),
     cfg_BackendTLS := (if tls_Enabled (cfg_BackendTLS c) then cfg_BackendTLS c
       else \<lparr>tls_Enabled = False, tls_CACertificatePath = '''', tls_ClientCertAndKeyPath = ''''\<rparr>)\<rparr>"

lemma checkCA_iff:
  assumes "fs_faults w = []"
  shows "snd (checkCACertificate C path w) = w"
    "fst (checkCACertificate C path w) = None \<longleftrightarrow>
       path \<noteq> '''' \<and> (\<exists>raw. fs_files w path = Some raw \<and> ca_file_ok C raw)"
  using assms
  by (auto simp: checkCACertificate_def ca_file_ok_def Let_def split: option.splits if_splits prod.splits)
    (metis fst_conv prod.collapse)+

lemma checkClient_iff:
  assumes "fs_faults w = []"
  shows "snd (checkClientCertAndKey C path w) = w"
    "fst (checkClientCertAndKey C path w) = None \<longleftrightarrow>
       path = '''' \<or> (\<exists>raw. fs_files w path = Some raw \<and> client_file_ok C raw)"
  using assms
  by (auto simp: checkClientCertAndKey_def client_file_ok_def Let_def split: option.splits prod.splits sum.splits)

text \<open>(C21) Exactly the sound configurations are accepted: the file can be read and decoded, it
  names a PID file, and if TLS to the backends is enabled there is a CA file, blank or with a
  certificate that parses, and the client file, if one is named, is a matching certificate and key
  and nothing more. The result is the decoded configuration with a negative drain wait replaced by
  20 seconds and with no certificate paths when TLS is off.\<close>

theorem config_accepted_iff:
  assumes "fs_faults w = []"
  shows "fst (Config_New C unmarshal path w) = Inr c \<longleftrightarrow>
    (\<exists>text c0. fs_files w path = Some text \<and> unmarshal text emptyConfig = Inr (Some c0)
       \<and> cfg_HaProxyPidFile c0 \<noteq> ''''
       \<and> (tls_Enabled (cfg_BackendTLS c0) \<longrightarrow> tls_files_ok C (fs_files w) (cfg_BackendTLS c0))
       \<and> c = normalised c0)"
proof (cases "fs_files w path")
  case None
  then show ?thesis using assms by (simp add: Config_New_def initConfigFromFile_def)
next
  case (Some content)
  show ?thesis
  proof (cases "unmarshal content emptyConfig")
    case (Inl e)
    then show ?thesis using assms Some by (simp add: Config_New_def initConfigFromFile_def)
  next
    case (Inr r)
    show ?thesis
    proof (cases r)
      case None
      then show ?thesis using assms Some Inr by (simp add: Config_New_def initConfigFromFile_def)
    next
    case r: (Some c0)
    define c1 where "c1 = (if cfg_DrainWaitDuration c0 < 0 then c0\<lparr>cfg_DrainWaitDuration := DrainWaitDefault\<rparr> else c0)"
    have c1: "cfg_BackendTLS c1 = cfg_BackendTLS c0" by (simp add: c1_def)
    show ?thesis
    proof (cases "tls_Enabled (cfg_BackendTLS c0)")
      case True
      have "c1 = normalised c0" using True by (simp add: c1_def normalised_def DrainWaitDefault_def)
      moreover obtain e where "checkCACertificate C (tls_CACertificatePath (cfg_BackendTLS c0)) w = (e, w)"
        using checkCA_iff(1) [OF assms] by (metis prod.collapse)
      moreover obtain e' where "checkClientCertAndKey C (tls_ClientCertAndKeyPath (cfg_BackendTLS c0)) w = (e', w)"
        using checkClient_iff(1) [OF assms] by (metis prod.collapse)
      ultimately show ?thesis
        using assms Some Inr r True c1 checkCA_iff(2) [OF assms, of C "tls_CACertificatePath (cfg_BackendTLS c0)"]
          checkClient_iff(2) [OF assms, of C "tls_ClientCertAndKeyPath (cfg_BackendTLS c0)"]
        by (auto simp: Config_New_def initConfigFromFile_def Let_def c1_def [symmetric] tls_files_ok_def
            split: option.splits)
    next
      case False
      then have "c1\<lparr>cfg_BackendTLS := (cfg_BackendTLS c1)\<lparr>tls_CACertificatePath := '''', tls_ClientCertAndKeyPath := ''''\<rparr>\<rparr>
          = normalised c0"
        by (cases "cfg_BackendTLS c0") (simp add: c1_def normalised_def DrainWaitDefault_def)
      then show ?thesis
        using assms Some Inr r False c1 by (auto simp: Config_New_def initConfigFromFile_def Let_def c1_def [symmetric])
    qed
    qed
  qed
qed

text \<open>For examples: a decoder that ignores the text and a world with a configuration file.\<close>

definition sample_crypto :: crypto where
  "sample_crypto = \<lparr>pem_Decode = (\<lambda>s. (None, s)), pem_Encode = (\<lambda>b. Inr (pb_Bytes b)),
     x509_ParseCertificate = (\<lambda>b. None), tls_X509KeyPair = (\<lambda>c k. None)\<rparr>"

definition sample_config_file :: os_world where
  "sample_config_file = \<lparr>fs_files = [''router.yml'' \<mapsto> ''drain_wait: -1s''], fs_faults = []\<rparr>"

theorem config_accepted_iff_witness:
  "\<exists>c. fst (Config_New sample_crypto
       (\<lambda>_ c. Inr (Some (c\<lparr>cfg_HaProxyPidFile := ''pid'', cfg_DrainWaitDuration := - 1\<rparr>))) ''router.yml'' sample_config_file) = Inr c
     \<and> cfg_DrainWaitDuration c = 20 * second"
proof -
  let ?c0 = "emptyConfig\<lparr>cfg_HaProxyPidFile := ''pid'', cfg_DrainWaitDuration := - 1\<rparr>"
  have "fst (Config_New sample_crypto
       (\<lambda>_ c. Inr (Some (c\<lparr>cfg_HaProxyPidFile := ''pid'', cfg_DrainWaitDuration := - 1\<rparr>))) ''router.yml'' sample_config_file)
      = Inr (normalised ?c0)"
    by (subst config_accepted_iff) (simp_all add: sample_config_file_def emptyConfig_def)
  then show ?thesis by (auto simp: normalised_def)
qed

end
