(* ===== verification/Config_Marshaller.thy ===== *)
theory Config_Marshaller
  imports Haproxy_Config Router_Config
begin

text \<open>
  The marshaller of \<open>configurer/haproxy/config_marshaller.go\<close>: the text of the HAProxy
  configuration, byte for byte, and the errors it logs; its specification as a list of stanzas
  of lines; that the text has exactly these lines, does not depend on the order of Go's maps,
  names every backend once, and never downgrades a TLS backend.
\<close>

section \<open>The marshaller\<close>

abbreviation nl :: char where "nl \<equiv> CHR 10"

text \<open>The errors logged: a TLS backend without \<open>backend_tls\<close>, and a backend without TLS
  information while it is enabled.\<close>

datatype marshal_log =
    BackendTlsNotEnabled HAProxyBackend
  | RouteMissingTlsInformation HAProxyServer

fun serversLoop ::
  "HAProxyBackend \<Rightarrow> BackendTLSConfig \<Rightarrow> HAProxyServer list \<Rightarrow> string \<times> marshal_log list" where
  "serversLoop backend backendTlsCfg [] = ([], [])"
| "serversLoop backend backendTlsCfg (server # rest) =
     (let (output, log) = serversLoop backend backendTlsCfg rest in
      if bk_TLSPort server > 0 \<and> \<not> tls_Enabled backendTlsCfg then
        (output, BackendTlsNotEnabled backend # log)
      else if bk_TLSPort server > 0 then
        (nl # ''  server server_'' @ bk_Address server @ ''_'' @ showInt (bk_TLSPort server)
           @ '' '' @ bk_Address server @ '':'' @ showInt (bk_TLSPort server)
           @ '' ssl verify required verifyhost '' @ bk_InstanceID server
           @ '' ca-file '' @ tls_CACertificatePath backendTlsCfg
           @ (if tls_ClientCertAndKeyPath backendTlsCfg \<noteq> ''''
              then '' crt '' @ tls_ClientCertAndKeyPath backendTlsCfg else [])
           @ output, log)
      else
        (nl # ''  server server_'' @ bk_Address server @ ''_'' @ showU16 (bk_Port server)
           @ '' '' @ bk_Address server @ '':'' @ showU16 (bk_Port server) @ output,
         (if bk_TLSPort server = 0 \<and> tls_Enabled backendTlsCfg
          then [RouteMissingTlsInformation server] else []) @ log))"

definition marshalHAProxyBackend ::
  "string \<Rightarrow> HAProxyBackend \<Rightarrow> BackendTLSConfig \<Rightarrow> string \<times> marshal_log list" where
  "marshalHAProxyBackend backendName backend backendTlsCfg =
     (let (servers, log) = serversLoop backend backendTlsCfg backend
      in (nl # ''backend '' @ backendName @ nl # ''  mode tcp'' @ servers @ [nl], log))"

definition sortedHAProxyInboundPorts :: "HAProxyConfig \<Rightarrow> HAProxyInboundPort list" where
  "sortedHAProxyInboundPorts conf = sliceStable (<) (gm_keys conf)"

definition sortedSniHostnames :: "HAProxyFrontend \<Rightarrow> SniHostname list" where
  "sortedSniHostnames frontend = sliceStable (<) (gm_keys frontend)"

definition backendCfgName :: "HAProxyInboundPort \<Rightarrow> SniHostname \<Rightarrow> string" where
  "backendCfgName port hostname =
     (if hostname = SniHostname '''' then ''backend_'' @ showU16 port
      else ''backend_'' @ showU16 port @ ''_'' @ sni_string hostname)"

text \<open>The loop over the host names fills two buffers, the rules of the frontend and the backend
  stanzas.\<close>

fun hostnamesLoop ::
  "HAProxyInboundPort \<Rightarrow> HAProxyFrontend \<Rightarrow> BackendTLSConfig \<Rightarrow> SniHostname list
   \<Rightarrow> string \<times> string \<times> marshal_log list" where
  "hostnamesLoop port frontend backendTlsCfg [] = ([], [], [])"
| "hostnamesLoop port frontend backendTlsCfg (hostname # rest) =
     (let name = backendCfgName port hostname;
          rule = (if hostname = SniHostname '''' then nl # ''  default_backend '' @ name
                  else nl # ''  use_backend '' @ name @ '' if { req.ssl_sni ''
                         @ sni_string hostname @ '' }'');
          backend = (case gm_get frontend hostname of Some b \<Rightarrow> b | None \<Rightarrow> []);
          (haProxyBackendString, blog) = marshalHAProxyBackend name backend backendTlsCfg;
          (frontendStanza, backendStanzas, log) = hostnamesLoop port frontend backendTlsCfg rest
      in (rule @ frontendStanza, haProxyBackendString @ backendStanzas, blog @ log))"

definition marshalHAProxyFrontend ::
  "HAProxyInboundPort \<Rightarrow> HAProxyFrontend \<Rightarrow> BackendTLSConfig \<Rightarrow> string \<times> marshal_log list" where
  "marshalHAProxyFrontend port frontend backendTlsCfg =
     (let (rules, backendStanzas, log) =
            hostnamesLoop port frontend backendTlsCfg (sortedSniHostnames frontend)
      in (nl # ''frontend frontend_'' @ showU16 port
            @ nl # ''  mode tcp''
            @ nl # ''  bind :'' @ showU16 port
            @ (if ContainsSNIRoutes frontend
               then nl # ''  tcp-request inspect-delay 5s''
                    @ nl # ''  tcp-request content accept if { req.ssl_hello_type gt 0 }''
               else [])
            @ rules @ nl # backendStanzas, log))"

fun portsLoop ::
  "HAProxyConfig \<Rightarrow> BackendTLSConfig \<Rightarrow> HAProxyInboundPort list \<Rightarrow> string \<times> marshal_log list" where
  "portsLoop conf backendTlsCfg [] = ([], [])"
| "portsLoop conf backendTlsCfg (port # rest) =
     (let frontend = (case gm_get conf port of Some f \<Rightarrow> f | None \<Rightarrow> gm_empty);
          (stanzas, flog) = marshalHAProxyFrontend port frontend backendTlsCfg;
          (output, log) = portsLoop conf backendTlsCfg rest
      in (stanzas @ output, flog @ log))"

definition Marshal :: "HAProxyConfig \<Rightarrow> BackendTLSConfig \<Rightarrow> string \<times> marshal_log list" where
  "Marshal conf backendTlsCfg = portsLoop conf backendTlsCfg (sortedHAProxyInboundPorts conf)"

section \<open>The specification: stanzas of lines\<close>

definition server_line :: "BackendTLSConfig \<Rightarrow> HAProxyServer \<Rightarrow> string" where
  "server_line tls s =
     (if bk_TLSPort s > 0 then
        ''  server server_'' @ bk_Address s @ ''_'' @ showInt (bk_TLSPort s) @ '' ''
          @ bk_Address s @ '':'' @ showInt (bk_TLSPort s)
          @ '' ssl verify required verifyhost '' @ bk_InstanceID s
          @ '' ca-file '' @ tls_CACertificatePath tls
          @ (if tls_ClientCertAndKeyPath tls = '''' then [] else '' crt '' @ tls_ClientCertAndKeyPath tls)
      else ''  server server_'' @ bk_Address s @ ''_'' @ showU16 (bk_Port s) @ '' ''
          @ bk_Address s @ '':'' @ showU16 (bk_Port s))"

definition served :: "BackendTLSConfig \<Rightarrow> HAProxyServer \<Rightarrow> bool" where
  "served tls s \<longleftrightarrow> bk_TLSPort s \<le> 0 \<or> tls_Enabled tls"

definition backend_stanza :: "BackendTLSConfig \<Rightarrow> string \<Rightarrow> HAProxyBackend \<Rightarrow> string list" where
  "backend_stanza tls name b =
     [''backend '' @ name, ''  mode tcp''] @ map (server_line tls) (filter (served tls) b)"

definition rule_line :: "HAProxyInboundPort \<Rightarrow> SniHostname \<Rightarrow> string" where
  "rule_line p h =
     (if h = SniHostname '''' then ''  default_backend '' @ backendCfgName p h
      else ''  use_backend '' @ backendCfgName p h @ '' if { req.ssl_sni '' @ sni_string h @ '' }'')"

definition frontend_stanza :: "HAProxyInboundPort \<Rightarrow> SniHostname list \<Rightarrow> string list" where
  "frontend_stanza p hs =
     [''frontend frontend_'' @ showU16 p, ''  mode tcp'', ''  bind :'' @ showU16 p]
     @ (if \<exists>h \<in> set hs. h \<noteq> SniHostname ''''
        then [''  tcp-request inspect-delay 5s'',
              ''  tcp-request content accept if { req.ssl_hello_type gt 0 }''] else [])
     @ map (rule_line p) hs"

text \<open>Ports in increasing order; for each its frontend, then its backends by host name.\<close>

definition port_stanzas ::
  "BackendTLSConfig \<Rightarrow> HAProxyInboundPort \<Rightarrow> SniHostname list
   \<Rightarrow> (SniHostname \<Rightarrow> HAProxyBackend) \<Rightarrow> string list list" where
  "port_stanzas tls p hs servers =
     frontend_stanza p hs # map (\<lambda>h. backend_stanza tls (backendCfgName p h) (servers h)) hs"

definition hosts_of :: "HAProxyConfig \<Rightarrow> HAProxyInboundPort \<Rightarrow> SniHostname list" where
  "hosts_of conf p = sort (gm_keys (case gm_get conf p of Some f \<Rightarrow> f | None \<Rightarrow> gm_empty))"

definition servers_of :: "HAProxyConfig \<Rightarrow> HAProxyInboundPort \<Rightarrow> SniHostname \<Rightarrow> HAProxyBackend" where
  "servers_of conf p h = (case conf_lookup conf p h of Some b \<Rightarrow> b | None \<Rightarrow> [])"

definition config_stanzas :: "HAProxyConfig \<Rightarrow> BackendTLSConfig \<Rightarrow> string list list" where
  "config_stanzas conf tls =
     concat (map (\<lambda>p. port_stanzas tls p (hosts_of conf p) (servers_of conf p))
       (sort (gm_keys conf)))"

definition render :: "string list \<Rightarrow> string" where
  "render stanza = concat (map ((#) nl) stanza) @ [nl]"

section \<open>The text is the rendering of the stanzas\<close>

lemma serversLoop_eq:
  "fst (serversLoop b tls ss) = concat (map ((#) nl) (map (server_line tls) (filter (served tls) ss)))"
  by (induction ss) (auto simp: Let_def case_prod_beta served_def server_line_def)

lemma marshalBackend_eq:
  "fst (marshalHAProxyBackend name b tls) = render (backend_stanza tls name b)"
  by (simp add: marshalHAProxyBackend_def case_prod_beta serversLoop_eq render_def backend_stanza_def)

lemma hostnamesLoop_eq:
  "fst (hostnamesLoop p f tls hs) = concat (map ((#) nl) (map (rule_line p) hs))
   \<and> fst (snd (hostnamesLoop p f tls hs)) =
       concat (map (\<lambda>h. render (backend_stanza tls (backendCfgName p h)
         (case gm_get f h of Some b \<Rightarrow> b | None \<Rightarrow> []))) hs)"
  by (induction hs) (auto simp: Let_def case_prod_beta marshalBackend_eq rule_line_def)

lemma ContainsSNIRoutes_iff: "ContainsSNIRoutes f \<longleftrightarrow> (\<exists>h \<in> set (gm_keys f). h \<noteq> SniHostname '''')"
  by (induction f rule: ContainsSNIRoutes.induct) (auto simp: gm_keys_def)

lemma sorted_names_eq:
  "sortedSniHostnames f = sort (gm_keys f)" "sortedHAProxyInboundPorts conf = sort (gm_keys conf)"
  unfolding sortedSniHostnames_def sortedHAProxyInboundPorts_def
  by (simp_all add: sliceStable_sort)

lemma marshalFrontend_eq:
  "fst (marshalHAProxyFrontend p f tls) =
     concat (map render (port_stanzas tls p (sort (gm_keys f))
       (\<lambda>h. case gm_get f h of Some b \<Rightarrow> b | None \<Rightarrow> [])))"
  using hostnamesLoop_eq [of p f tls "sort (gm_keys f)"]
  by (simp add: marshalHAProxyFrontend_def case_prod_beta sorted_names_eq ContainsSNIRoutes_iff
      port_stanzas_def frontend_stanza_def render_def comp_def)

lemma portsLoop_eq:
  "fst (portsLoop conf tls ps) =
     concat (map (\<lambda>p. concat (map render (port_stanzas tls p (hosts_of conf p) (servers_of conf p)))) ps)"
proof (induction ps)
  case (Cons p ps)
  have "servers_of conf p = (\<lambda>h. case gm_get
      (case gm_get conf p of Some f \<Rightarrow> f | None \<Rightarrow> gm_empty) h of Some b \<Rightarrow> b | None \<Rightarrow> [])"
    by (auto simp: servers_of_def conf_lookup_def fun_eq_iff split: option.splits)
  with Cons show ?case by (simp add: Let_def case_prod_beta marshalFrontend_eq hosts_of_def)
qed simp

lemma Marshal_eq: "fst (Marshal conf tls) = concat (map render (config_stanzas conf tls))"
  by (simp add: Marshal_def portsLoop_eq sorted_names_eq config_stanzas_def concat_map_concat)

section \<open>Lines\<close>

definition clean :: "string \<Rightarrow> bool" where "clean s \<longleftrightarrow> nl \<notin> set s"

definition text_lines :: "string \<Rightarrow> string list" where "text_lines s = splitOn nl s"

lemma clean_simps [simp]:
  "clean []" "clean (c # s) \<longleftrightarrow> c \<noteq> nl \<and> clean s" "clean (s @ t) \<longleftrightarrow> clean s \<and> clean t"
  by (auto simp: clean_def)

lemma split_joined:
  "clean w \<Longrightarrow> list_all clean ls \<Longrightarrow>
     splitOn nl (w @ concat (map ((#) nl) ls) @ nl # rest) = w # ls @ splitOn nl rest"
proof (induction ls arbitrary: w)
  case Nil
  then show ?case by (simp add: clean_def splitOn_append_sep)
next
  case (Cons l ls)
  then have "splitOn nl (w @ nl # (l @ concat (map ((#) nl) ls) @ nl # rest)) =
      w # splitOn nl (l @ concat (map ((#) nl) ls) @ nl # rest)"
    by (intro splitOn_append_sep) (simp add: clean_def)
  with Cons show ?case by simp
qed

lemma lines_of_stanzas:
  "list_all (list_all clean) sts \<Longrightarrow>
     text_lines (concat (map render sts)) = concat (map ((#) []) sts) @ [[]]"
proof (induction sts)
  case (Cons st sts)
  then show ?case
    using split_joined [of "[]" st "concat (map render sts)"] by (simp add: text_lines_def render_def [of st])
qed (simp add: text_lines_def)

lemma text_lines_middle: "clean l \<Longrightarrow> l \<in> set (text_lines (a @ nl # l @ nl # b))"
  using splitOn_split [of nl a "l @ nl # b"]
  by (simp add: text_lines_def splitOn_append_sep clean_def)

lemma is_digit_clean: "is_digit c \<Longrightarrow> c \<noteq> nl"
  by (auto simp: is_digit_def)

lemma dns_char_clean: "dns_char c \<Longrightarrow> c \<noteq> nl"
  by (auto simp: dns_char_def dns_rest_def dns_first_def Let_def)

lemma clean_show [simp]: "clean (showNat n)" "clean (showU16 w)" "clean (showInt i)"
  using showNat_digits is_digit_clean
  by (fastforce simp: clean_def showU16_def showInt_def)+

lemma clean_validDNSName: "isValidDNSName h \<Longrightarrow> clean h"
  using validDNSName_chars dns_char_clean by (auto simp: clean_def)

text \<open>A configuration whose texts hold no newline.\<close>

definition clean_server :: "HAProxyServer \<Rightarrow> bool" where
  "clean_server s \<longleftrightarrow> clean (bk_Address s) \<and> (bk_TLSPort s > 0 \<longrightarrow> clean (bk_InstanceID s))"

definition clean_conf :: "HAProxyConfig \<Rightarrow> bool" where
  "clean_conf conf \<longleftrightarrow> (\<forall>p h b. conf_lookup conf p h = Some b \<longrightarrow>
     clean (sni_string h) \<and> list_all clean_server b)"

definition clean_tls :: "BackendTLSConfig \<Rightarrow> bool" where
  "clean_tls tls \<longleftrightarrow> clean (tls_CACertificatePath tls) \<and> clean (tls_ClientCertAndKeyPath tls)"

lemma clean_server_line: "clean_tls tls \<Longrightarrow> clean_server s \<Longrightarrow> clean (server_line tls s)"
  by (auto simp: server_line_def clean_server_def clean_tls_def)

lemma clean_backendCfgName: "clean (sni_string h) \<Longrightarrow> clean (backendCfgName p h)"
  by (simp add: backendCfgName_def)

lemma hosts_of_iff:
  "wf_conf conf \<Longrightarrow> h \<in> set (hosts_of conf p) \<longleftrightarrow> conf_lookup conf p h \<noteq> None"
  by (auto simp: hosts_of_def conf_lookup_def gm_dom [symmetric] split: option.splits)

lemma ports_iff:
  assumes "wf_conf conf"
  shows "p \<in> set (gm_keys conf) \<longleftrightarrow> (\<exists>h. conf_lookup conf p h \<noteq> None)"
proof -
  have "\<exists>h. gm_get f h \<noteq> None" if "f \<noteq> []" for f :: HAProxyFrontend
    using that by (cases f) auto
  then show ?thesis
    using assms by (fastforce simp: wf_conf_def conf_lookup_def gm_dom [symmetric] split: option.splits)
qed

lemma clean_stanzas:
  assumes "wf_conf conf" and "clean_conf conf" and "clean_tls tls"
  shows "list_all (list_all clean) (config_stanzas conf tls)"
proof -
  have "list_all (list_all clean) (port_stanzas tls p (hosts_of conf p) (servers_of conf p))" for p
  proof -
    have h: "clean (sni_string h) \<and> list_all clean_server (servers_of conf p h)"
      if "h \<in> set (hosts_of conf p)" for h
      using that assms(1,2) by (auto simp: hosts_of_iff clean_conf_def servers_of_def)
    have "list_all clean (backend_stanza tls (backendCfgName p h) (servers_of conf p h))"
      if "h \<in> set (hosts_of conf p)" for h
      using h [OF that] clean_server_line [OF assms(3)]
      by (auto simp: backend_stanza_def clean_backendCfgName list_all_iff)
    moreover have "list_all clean (frontend_stanza p (hosts_of conf p))"
      using h by (auto simp: frontend_stanza_def rule_line_def clean_backendCfgName list_all_iff)
    ultimately show ?thesis by (simp add: port_stanzas_def list_all_iff)
  qed
  then show ?thesis by (auto simp: config_stanzas_def list_all_iff)
qed

lemma Marshal_lines:
  "wf_conf conf \<Longrightarrow> clean_conf conf \<Longrightarrow> clean_tls tls \<Longrightarrow>
     text_lines (fst (Marshal conf tls)) = concat (map ((#) []) (config_stanzas conf tls)) @ [[]]"
  by (simp add: Marshal_eq lines_of_stanzas clean_stanzas)

section \<open>Names\<close>

lemma takeWhile_digits: "takeWhile is_digit (showU16 p @ CHR ''_'' # s) = showU16 p"
proof -
  have "\<not> is_digit CHR ''_''" by (simp add: is_digit_def)
  then show ?thesis using showU16_digits by (simp add: takeWhile_append2)
qed

lemma backendCfgName_inj:
  assumes "backendCfgName p h = backendCfgName p' h'"
  shows "p = p' \<and> h = h'"
proof -
  have us: "CHR ''_'' \<notin> set (showU16 w)" for w
    using showU16_digits [of "CHR ''_''" w] by (auto simp: is_digit_def)
  have nz: "showU16 p = showU16 p' @ CHR ''_'' # s \<Longrightarrow> False" for p p' s
    using us [of p] by simp
  show ?thesis
  proof (cases "h = SniHostname '''' \<or> h' = SniHostname ''''")
    case True
    with assms show ?thesis
      using nz by (auto simp: backendCfgName_def split: if_splits) (metis)+
  next
    case False
    with assms have eq: "showU16 p @ CHR ''_'' # sni_string h = showU16 p' @ CHR ''_'' # sni_string h'"
      by (simp add: backendCfgName_def)
    then have "showU16 p = showU16 p'" by (metis takeWhile_digits)
    with eq show ?thesis by (simp add: SniHostname.expand)
  qed
qed

definition is_backend_header :: "string \<Rightarrow> bool" where
  "is_backend_header l \<longleftrightarrow> take 8 l = ''backend ''"

lemma headers_port_stanzas:
  "filter is_backend_header (concat (map ((#) []) (port_stanzas tls p hs servers))) =
     map (\<lambda>h. ''backend '' @ backendCfgName p h) hs"
proof -
  have rules: "filter is_backend_header (map (rule_line p) hs') = []" for hs'
    by (induction hs') (auto simp: is_backend_header_def rule_line_def)
  have servers: "filter is_backend_header (map (server_line tls) ss) = []" for ss
    by (induction ss) (auto simp: is_backend_header_def server_line_def)
  have front: "filter is_backend_header (frontend_stanza p hs') = []" for hs'
    unfolding frontend_stanza_def by (simp add: rules) (simp add: is_backend_header_def)
  have stanza: "filter is_backend_header (backend_stanza tls n b) = [''backend '' @ n]" for n b
    unfolding backend_stanza_def by (simp add: servers) (simp add: is_backend_header_def)
  have blank: "\<not> is_backend_header []" by (simp add: is_backend_header_def)
  have "filter is_backend_header (concat (map ((#) [])
      (map (\<lambda>h. backend_stanza tls (backendCfgName p h) (servers h)) hs'))) =
      map (\<lambda>h. ''backend '' @ backendCfgName p h) hs'" for hs'
    by (induction hs') (simp_all add: stanza blank)
  then show ?thesis by (simp add: port_stanzas_def front blank)
qed

lemma headers_config:
  "filter is_backend_header (concat (map ((#) []) (config_stanzas conf tls)) @ [[]]) =
     map (\<lambda>(p, h). ''backend '' @ backendCfgName p h)
       (concat (map (\<lambda>p. map (Pair p) (hosts_of conf p)) (sort (gm_keys conf))))"
proof -
  have "filter is_backend_header (concat (map ((#) [])
      (concat (map (\<lambda>p. port_stanzas tls p (hosts_of conf p) (servers_of conf p)) ps)))) =
    map (\<lambda>(p, h). ''backend '' @ backendCfgName p h)
      (concat (map (\<lambda>p. map (Pair p) (hosts_of conf p)) ps))" for ps
    by (induction ps) (simp_all add: headers_port_stanzas)
  then show ?thesis by (simp add: config_stanzas_def is_backend_header_def)
qed

lemma distinct_hosts_of: "wf_conf conf \<Longrightarrow> distinct (hosts_of conf p)"
  by (auto simp: hosts_of_def wf_conf_def gm_ok_def gm_keys_def gm_empty_def split: option.splits)

lemma distinct_port_host_pairs:
  "distinct ps \<Longrightarrow> (\<And>p. distinct (hs p)) \<Longrightarrow> distinct (concat (map (\<lambda>p. map (Pair p) (hs p)) ps))"
  by (induction ps) (auto simp: distinct_map inj_on_def)

section \<open>Correctness of the marshalled text\<close>

lemma clean_NewHAProxyConfig:
  assumes "\<And>k b. (k, b) \<in> table_pairs t \<Longrightarrow> bk_TLSPort b > 0 \<Longrightarrow> clean (bk_InstanceID b)"
  shows "clean_conf (fst (NewHAProxyConfig t))"
  unfolding clean_conf_def
proof (intro allI impI)
  fix p h b
  let ?rk = "\<lparr>rk_Port = p, rk_SniHostname = h\<rparr>"
  assume "conf_lookup (fst (NewHAProxyConfig t)) p h = Some b"
  then have "kept_route t ?rk" and b: "b = sliceStable serverLess (kept_servers t ?rk)"
    by (auto simp: NewHAProxyConfig_lookup Let_def split: if_splits)
  then have "clean (sni_string h)"
    by (auto simp: kept_route_def valid_route_def clean_validDNSName)
  moreover have "clean_server s" if "s \<in> set b" for s
  proof -
    have "lookup_backend t ?rk s \<noteq> None" "valid_server s"
      using that b set_kept_servers [of t ?rk] by auto
    then show ?thesis
      using assms [of ?rk s]
      by (auto simp: clean_server_def valid_server_def clean_validDNSName table_pairs_def)
  qed
  ultimately show "clean (sni_string h) \<and> list_all clean_server b" by (simp add: list_all_iff)
qed

text \<open>The text written for a routing table consists of exactly the intended lines, so no
  address, host name or number can add a line or end one early; the instance identifiers of TLS
  backends and the two certificate paths, which the program does not check, have to be free of
  newlines.\<close>

lemma marshalled_lines:
  assumes "\<forall>(k, b) \<in> table_pairs t. bk_TLSPort b > 0 \<longrightarrow> clean (bk_InstanceID b)"
    and "clean_tls tls" and "NewHAProxyConfig t = (conf, log)"
  shows "text_lines (fst (Marshal conf tls)) = concat (map ((#) []) (config_stanzas conf tls)) @ [[]]"
proof -
  have "clean_conf conf" using clean_NewHAProxyConfig [of t] assms(1,3) by auto
  moreover have "wf_conf conf" using wf_NewHAProxyConfig [of t] assms(3) by simp
  ultimately show ?thesis using assms(2) by (simp add: Marshal_lines)
qed

definition no_tls :: BackendTLSConfig where
  "no_tls = \<lparr>tls_Enabled = False, tls_CACertificatePath = '''', tls_ClientCertAndKeyPath = ''''\<rparr>"

lemma marshalled_lines_witness:
  "text_lines (fst (Marshal (fst (NewHAProxyConfig sample_table)) no_tls)) =
     concat (map ((#) []) (config_stanzas (fst (NewHAProxyConfig sample_table)) no_tls)) @ [[]]"
proof (rule marshalled_lines [OF _ _ prod.collapse [symmetric]])
  show "\<forall>(k, b) \<in> table_pairs sample_table. bk_TLSPort b > 0 \<longrightarrow> clean (bk_InstanceID b)"
    by (auto simp: table_pairs_def lookup_sample_table info_key_def sample_info_def
        serverKeyDetailsFromInfo_def)
  show "clean_tls no_tls" by (simp add: clean_tls_def no_tls_def)
qed

lemma server_line_instance:
  assumes "bk_TLSPort s > 0"
  shows "\<exists>a b. server_line tls s = a @ bk_InstanceID s @ b"
proof -
  have "server_line tls s = (''  server server_'' @ bk_Address s @ ''_'' @ showInt (bk_TLSPort s) @ '' ''
      @ bk_Address s @ '':'' @ showInt (bk_TLSPort s) @ '' ssl verify required verifyhost '')
      @ bk_InstanceID s @ ('' ca-file '' @ tls_CACertificatePath tls
        @ (if tls_ClientCertAndKeyPath tls = '''' then [] else '' crt '' @ tls_ClientCertAndKeyPath tls))"
    using assms by (simp add: server_line_def)
  then show ?thesis by blast
qed

text \<open>Every line of every stanza is in the text, between two newlines.\<close>

lemma render_line: "l \<in> set st \<Longrightarrow> \<exists>a c. render st = a @ nl # l @ nl # c"
proof -
  assume "l \<in> set st"
  then obtain xs ys where st: "st = xs @ l # ys" by (auto dest: split_list)
  obtain c where "concat (map ((#) nl) ys) @ [nl] = nl # c" by (cases ys) auto
  then have "render st = concat (map ((#) nl) xs) @ nl # l @ nl # c" by (simp add: render_def st)
  then show ?thesis by blast
qed

lemma Marshal_server_line:
  assumes "wf_conf conf" and "conf_lookup conf p h = Some b" and "s \<in> set b" and "served tls s"
  shows "\<exists>a c. fst (Marshal conf tls) = a @ nl # server_line tls s @ nl # c"
proof -
  let ?st = "backend_stanza tls (backendCfgName p h) (servers_of conf p h)"
  have "p \<in> set (gm_keys conf)" "h \<in> set (hosts_of conf p)"
    using assms(1,2) by (auto simp: ports_iff hosts_of_iff)
  then have "?st \<in> set (config_stanzas conf tls)"
    by (auto simp: config_stanzas_def port_stanzas_def)
  then obtain xs ys where "config_stanzas conf tls = xs @ ?st # ys" by (auto dest: split_list)
  moreover have "server_line tls s \<in> set ?st"
    using assms(2-4) by (simp add: backend_stanza_def servers_of_def)
  then obtain a c where "render ?st = a @ nl # server_line tls s @ nl # c"
    using render_line by blast
  ultimately have "fst (Marshal conf tls) =
      (concat (map render xs) @ a) @ nl # server_line tls s @ nl # c @ concat (map render ys)"
    by (simp add: Marshal_eq)
  then show ?thesis by blast
qed

text \<open>(C35) The instance identifier is not checked: for any line there is a well-formed table that
  passes every check of \<open>NewHAProxyConfig\<close>, with nothing logged, whose text has this line as a
  line of its own.\<close>

definition injecting_table :: "string \<Rightarrow> nat RoutingTable" where
  "injecting_table line = tie_table [tie_server 61001 (''i'' @ nl # line @ nl # ''j'')]"

theorem instance_id_injects_line:
  assumes "clean line" and "tls_Enabled tls"
  shows "wf_table (injecting_table line) \<and> snd (NewHAProxyConfig (injecting_table line)) = []
    \<and> line \<in> set (text_lines (fst (Marshal (fst (NewHAProxyConfig (injecting_table line))) tls)))"
proof -
  let ?inst = "''i'' @ nl # line @ nl # ''j''"
  let ?s = "tie_server 61001 ?inst"
  let ?t = "injecting_table line"
  have ok: "isValidDNSName ''a''"
    by (simp add: isValidDNSName_def validDNSNameRegexp_def dnsLabel_def dns_first_def dns_rest_def
        Let_def)
  then have valid: "valid_server ?s" by (simp add: valid_server_def tie_server_def)
  have route: "valid_route sample_key" by (simp add: valid_route_def sample_key_def)
  have wf: "wf_table ?t"
    by (simp add: injecting_table_def tie_table_def wf_table_def wf_entry_def)
  have keys: "gm_keys (Backends (Get ?t sample_key)) = [?s]" "gm_keys (Entries ?t) = [sample_key]"
    by (simp_all add: injecting_table_def tie_table_def Get_def gm_keys_def)
  have kept: "kept_route ?t sample_key"
    using keys valid route by (simp add: kept_route_def kept_servers_def)
  have log: "snd (NewHAProxyConfig ?t) = []"
    using kept keys valid by (simp add: NewHAProxyConfig_def configLoop_log_empty)
  have "conf_lookup (fst (NewHAProxyConfig ?t)) 2222 (SniHostname '''') = Some [?s]"
    using kept keys valid by (simp add: NewHAProxyConfig_lookup kept_servers_def flip: sample_key_def)
  moreover have "served tls ?s" using assms(2) by (simp add: served_def)
  ultimately obtain a c where out: "fst (Marshal (fst (NewHAProxyConfig ?t)) tls) =
      a @ nl # server_line tls ?s @ nl # c"
    using Marshal_server_line [OF wf_NewHAProxyConfig, of ?t 2222 "SniHostname ''''" "[?s]" ?s tls] by auto
  obtain u v where "server_line tls ?s = u @ ?inst @ v"
    using server_line_instance [of ?s tls] by (auto simp: tie_server_def)
  with out have "fst (Marshal (fst (NewHAProxyConfig ?t)) tls) =
      (a @ nl # u @ ''i'') @ nl # line @ nl # (''j'' @ v @ nl # c)" by simp
  then have "line \<in> set (text_lines (fst (Marshal (fst (NewHAProxyConfig ?t)) tls)))"
    using assms(1) by (simp only: text_lines_middle)
  with wf log show ?thesis by blast
qed

theorem instance_id_injects_line_witness:
  "''  server evil 10.9.9.9:80'' \<in> set (text_lines (fst (Marshal
     (fst (NewHAProxyConfig (injecting_table ''  server evil 10.9.9.9:80'')))
     (no_tls\<lparr>tls_Enabled := True\<rparr>))))"
  using instance_id_injects_line [of "''  server evil 10.9.9.9:80''" "no_tls\<lparr>tls_Enabled := True\<rparr>"]
  by simp

text \<open>The text depends only on what the configuration maps hold, not on the order in which
  Go visits them.\<close>

lemma marshal_deterministic:
  assumes "wf_conf conf" and "wf_conf conf'" and "conf_lookup conf = conf_lookup conf'"
  shows "fst (Marshal conf tls) = fst (Marshal conf' tls)"
proof -
  have sorted: "sort xs = sort ys" if "distinct xs" "distinct ys" "set xs = set ys"
    for xs ys :: "'a :: linorder list"
    using that by (intro sorted_distinct_set_unique) simp_all
  have "set (gm_keys conf) = set (gm_keys conf')"
    using assms by (auto simp: ports_iff)
  moreover have "distinct (gm_keys conf)" "distinct (gm_keys conf')"
    using assms(1,2) by (simp_all add: wf_conf_def gm_ok_def gm_keys_def)
  ultimately have ports: "sort (gm_keys conf) = sort (gm_keys conf')" by (intro sorted)
  have hosts: "hosts_of conf p = hosts_of conf' p" for p
  proof -
    have "set (hosts_of conf p) = set (hosts_of conf' p)"
      using assms by (auto simp: hosts_of_iff)
    then show ?thesis
      using distinct_hosts_of assms(1,2)
      by (intro sorted_distinct_set_unique) (auto simp: hosts_of_def)
  qed
  have "servers_of conf = servers_of conf'" using assms(3) by (simp add: servers_of_def fun_eq_iff)
  then have "config_stanzas conf tls = config_stanzas conf' tls"
    using ports hosts by (simp add: config_stanzas_def)
  then show ?thesis by (simp add: Marshal_eq)
qed

lemma marshal_deterministic_witness:
  "fst (Marshal [(80, [(SniHostname '''', [])]), (81, [(SniHostname ''x'', [])])] no_tls)
   = fst (Marshal [(81, [(SniHostname ''x'', [])]), (80, [(SniHostname '''', [])])] no_tls)"
  by (rule marshal_deterministic) (auto simp: wf_conf_def conf_lookup_def fun_eq_iff split: if_splits)

text \<open>Every backend a frontend rule names is defined by exactly one backend stanza: the
  headers of the text are the names of the ports and hosts configured, each once, and each port
  and host has its rule.\<close>

lemma backends_named_once:
  assumes "wf_conf conf" and "clean_conf conf" and "clean_tls tls"
  shows "distinct (filter is_backend_header (text_lines (fst (Marshal conf tls))))
    \<and> set (filter is_backend_header (text_lines (fst (Marshal conf tls)))) =
        {''backend '' @ backendCfgName p h | p h. conf_lookup conf p h \<noteq> None}
    \<and> (\<forall>p h. conf_lookup conf p h \<noteq> None \<longrightarrow>
         rule_line p h \<in> set (text_lines (fst (Marshal conf tls))))"
proof -
  let ?pairs = "concat (map (\<lambda>p. map (Pair p) (hosts_of conf p)) (sort (gm_keys conf)))"
  have lines: "text_lines (fst (Marshal conf tls)) = concat (map ((#) []) (config_stanzas conf tls)) @ [[]]"
    using assms by (rule Marshal_lines)
  have pairs: "set ?pairs = {(p, h). conf_lookup conf p h \<noteq> None}"
    using ports_iff [OF assms(1)] hosts_of_iff [OF assms(1)] by (fastforce simp: image_iff)
  have "distinct ?pairs"
    using assms(1) by (intro distinct_port_host_pairs distinct_hosts_of)
      (simp_all add: wf_conf_def gm_ok_def gm_keys_def)
  moreover have "inj_on (\<lambda>(p, h). ''backend '' @ backendCfgName p h) (set ?pairs)"
    by (auto intro!: inj_onI dest: backendCfgName_inj)
  moreover have "rule_line p h \<in> set (concat (map ((#) []) (config_stanzas conf tls)))"
    if "conf_lookup conf p h \<noteq> None" for p h
  proof -
    have keys: "p \<in> set (gm_keys conf)" "h \<in> set (hosts_of conf p)"
      using that ports_iff [OF assms(1)] hosts_of_iff [OF assms(1)] by blast+
    then have "frontend_stanza p (hosts_of conf p) \<in> set (config_stanzas conf tls)"
      by (auto simp: config_stanzas_def port_stanzas_def)
    moreover have "rule_line p h \<in> set (frontend_stanza p (hosts_of conf p))"
      using keys by (simp add: frontend_stanza_def)
    ultimately show ?thesis by auto
  qed
  ultimately show ?thesis
    unfolding lines headers_config using pairs by (auto simp: distinct_map)
qed

lemma backends_named_once_witness:
  "distinct (filter is_backend_header (text_lines (fst (Marshal
     [(80, [(SniHostname '''', []), (SniHostname ''x'', [])])] no_tls))))"
proof -
  have "conf_lookup [(80, [(SniHostname '''', []), (SniHostname ''x'', [])])] p h = Some b \<longleftrightarrow>
      p = 80 \<and> h \<in> {SniHostname '''', SniHostname ''x''} \<and> b = []" for p h b
    by (auto simp: conf_lookup_def split: if_splits)
  then have "clean_conf [(80, [(SniHostname '''', []), (SniHostname ''x'', [])])]"
    by (auto simp: clean_conf_def)
  then show ?thesis
    using backends_named_once [of "[(80, [(SniHostname '''', []), (SniHostname ''x'', [])])]" no_tls]
    by (simp add: wf_conf_def clean_tls_def no_tls_def)
qed

text \<open>A backend with a TLS port is never written as a plain server: with \<open>backend_tls\<close>
  enabled all servers are written, those with a TLS port with certificate and host verification
  of their instance; with it disabled exactly the servers without a TLS port are written. The log
  has one error for each server left out, and for each server whose TLS port is zero while TLS is
  enabled.\<close>

lemma backend_tls_policy:
  assumes "marshalHAProxyBackend name b tls = (out, log)"
  shows "out = render ([''backend '' @ name, ''  mode tcp'']
           @ map (server_line tls) (filter (\<lambda>s. bk_TLSPort s \<le> 0 \<or> tls_Enabled tls) b))
    \<and> (\<forall>s. bk_TLSPort s > 0 \<longrightarrow> (\<exists>rest. server_line tls s =
         ''  server server_'' @ bk_Address s @ ''_'' @ showInt (bk_TLSPort s) @ '' '' @ bk_Address s
         @ '':'' @ showInt (bk_TLSPort s) @ '' ssl verify required verifyhost '' @ bk_InstanceID s
         @ '' ca-file '' @ tls_CACertificatePath tls @ rest))
    \<and> log = (if tls_Enabled tls
             then map RouteMissingTlsInformation (filter (\<lambda>s. bk_TLSPort s = 0) b)
             else map (\<lambda>_. BackendTlsNotEnabled b) (filter (\<lambda>s. bk_TLSPort s > 0) b))"
proof -
  have "snd (serversLoop b' tls ss) = (if tls_Enabled tls
      then map RouteMissingTlsInformation (filter (\<lambda>s. bk_TLSPort s = 0) ss)
      else map (\<lambda>_. BackendTlsNotEnabled b') (filter (\<lambda>s. bk_TLSPort s > 0) ss))" for b' ss
    by (induction ss) (auto simp: Let_def case_prod_beta)
  then have "log = (if tls_Enabled tls
      then map RouteMissingTlsInformation (filter (\<lambda>s. bk_TLSPort s = 0) b)
      else map (\<lambda>_. BackendTlsNotEnabled b) (filter (\<lambda>s. bk_TLSPort s > 0) b))"
    using assms by (simp add: marshalHAProxyBackend_def case_prod_beta)
  moreover have "out = render (backend_stanza tls name b)"
    using marshalBackend_eq [of name b tls] assms by simp
  moreover have "served tls = (\<lambda>s. bk_TLSPort s \<le> 0 \<or> tls_Enabled tls)"
    by (simp add: served_def fun_eq_iff)
  ultimately show ?thesis
    by (simp add: backend_stanza_def server_line_def)
qed

lemma backend_tls_policy_witness:
  "snd (marshalHAProxyBackend ''b'' [tie_server 61001 ''i''] no_tls)
     = [BackendTlsNotEnabled [tie_server 61001 ''i'']]"
  using backend_tls_policy [OF prod.collapse [symmetric], of "''b''" "[tie_server 61001 ''i'']" no_tls]
  by (simp add: tie_server_def no_tls_def)

end
