(* ===== verification/Process_Runner.thy ===== *)
theory Process_Runner
  imports Prelude
begin

text \<open>
  The processes that \<open>ifrit\<close> runs for the router: a loop around a \<open>select\<close> over the signal
  channel and the channels of the process itself. The environment is the list of what the
  \<open>select\<close>s receive, in order; a loop returns or still runs at the end of the list. The locales
  state the contract of the signals that \<open>main.go\<close> relies on: SIGUSR2 (drain) ends no process,
  any other signal ends every one of them without an error.
\<close>

text \<open>How a call ends: with a panic, never, or with a value. \<open>NewTicker\<close> panics for an interval that
  is not positive.\<close>

datatype 'a go_result = Panic | Blocked | Ok 'a

definition NewTicker :: "duration \<Rightarrow> unit go_result" where
  "NewTicker d = (if d \<le> 0 then Panic else Ok ())"

lemma NewTicker_simps [simp]: "d \<le> 0 \<Longrightarrow> NewTicker d = Panic" "0 < d \<Longrightarrow> NewTicker d = Ok ()"
  by (simp_all add: NewTicker_def)

datatype os_signal = SIGUSR2 | OtherSignal nat

datatype 'e loop_event = Received os_signal | Internal 'e

datatype ('err, 's) outcome = Running 's | Returned "'err option" 's

fun runLoop ::
  "('s \<Rightarrow> 'e loop_event \<Rightarrow> ('err, 's) outcome) \<Rightarrow> 's \<Rightarrow> 'e loop_event list \<Rightarrow> ('err, 's) outcome" where
  "runLoop step s [] = Running s"
| "runLoop step s (e # es) = (case step s e of
     Running s' \<Rightarrow> runLoop step s' es
   | Returned err s' \<Rightarrow> Returned err s')"

abbreviation is_running :: "('err, 's) outcome \<Rightarrow> bool" where
  "is_running r \<equiv> \<exists>s. r = Running s"

lemma runLoop_append:
  "runLoop step s (es @ fs) = (case runLoop step s es of
     Running s' \<Rightarrow> runLoop step s' fs | Returned err s' \<Rightarrow> Returned err s')"
  by (induction es arbitrary: s) (auto split: outcome.splits)

definition stops :: "'e loop_event \<Rightarrow> bool" where
  "stops e \<longleftrightarrow> (case e of Received sig \<Rightarrow> sig \<noteq> SIGUSR2 | Internal _ \<Rightarrow> False)"

lemma stops_simps [simp]:
  "stops (Received sig) \<longleftrightarrow> sig \<noteq> SIGUSR2" "\<not> stops (Internal e)"
  by (simp_all add: stops_def)

fun outcome_state :: "('err, 's) outcome \<Rightarrow> 's" where
  "outcome_state (Running s) = s"
| "outcome_state (Returned err s) = s"

text \<open>The events a loop takes: all up to the first signal but SIGUSR2.\<close>

definition live_events :: "'e loop_event list \<Rightarrow> 'e loop_event list" where
  "live_events es = takeWhile (\<lambda>e. \<not> stops e) es"

locale ifrit_runner =
  fixes step :: "'s \<Rightarrow> 'e loop_event \<Rightarrow> ('err, 's) outcome"
  assumes usr2: "\<exists>s'. step s (Received SIGUSR2) = Running s'"
    and stop: "sig \<noteq> SIGUSR2 \<Longrightarrow> \<exists>s'. step s (Received sig) = Returned None s'"
begin

lemma step_running: "step s e = Running s' \<Longrightarrow> \<not> stops e"
  using stop [of _ s] by (cases e) force+

lemma running_saw_no_stop: "runLoop step s es = Running s' \<Longrightarrow> e \<in> set es \<Longrightarrow> \<not> stops e"
  by (induction es arbitrary: s) (auto dest: step_running split: outcome.splits)

lemma stop_signal_returns:
  assumes "sig \<noteq> SIGUSR2" "is_running (runLoop step s es)"
  shows "\<exists>s'. runLoop step s (es @ Received sig # fs) = Returned None s'"
proof -
  obtain s1 where "runLoop step s es = Running s1" using assms(2) by blast
  then show ?thesis using stop [OF assms(1), of s1] by (auto simp: runLoop_append)
qed

text \<open>An error always comes from an event of the process itself.\<close>

lemma error_source:
  assumes "runLoop step s es = Returned (Some err) s'"
  shows "\<exists>pre e post s1. es = pre @ Internal e # post \<and> runLoop step s pre = Running s1
    \<and> step s1 (Internal e) = Returned (Some err) s'"
  using assms
proof (induction es arbitrary: s)
  case (Cons f es)
  show ?case
  proof (cases "step s f")
    case (Running s2)
    then obtain pre e post s1 where "es = pre @ Internal e # post" "runLoop step s2 pre = Running s1"
      "step s1 (Internal e) = Returned (Some err) s'" using Cons by force
    then show ?thesis using Running by (intro exI [of _ "f # pre"]) auto
  next
    case (Returned err1 s2)
    then have eq: "err1 = Some err" "s2 = s'" using Cons.prems by auto
    then obtain e where "f = Internal e"
      using Returned usr2 [of s] stop [of _ s] by (cases f) (metis outcome.distinct(1) outcome.inject(2) option.distinct(1), blast)
    then show ?thesis using Returned eq by (intro exI [of _ "[]"]) auto
  qed
qed simp

end

locale usr2_deaf_runner =
  fixes step :: "'s \<Rightarrow> 'e loop_event \<Rightarrow> ('err, 's) outcome"
  assumes usr2_same: "step s (Received SIGUSR2) = Running s"
    and deaf_stop: "sig \<noteq> SIGUSR2 \<Longrightarrow> step s (Received sig) = Returned None s"
begin

lemma usr2_ignored: "runLoop step s (filter (\<lambda>e. e \<noteq> Received SIGUSR2) es) = runLoop step s es"
  by (induction es arbitrary: s) (auto simp: usr2_same split: outcome.splits)

end

sublocale usr2_deaf_runner \<subseteq> ifrit_runner
  by unfold_locales (auto simp: usr2_same deaf_stop)

end
