(* ===== verification/Monitor.thy ===== *)
theory Monitor
  imports Process_Runner Go_Text File_Utils
begin

text \<open>
  The HAProxy monitor of \<open>monitor/monitor.go\<close>: every second, unless watching is stopped, it
  reads the PID file and probes the process with signal 0, and ends the router when that fails.
  A run is a sequence of received signals, elapsed seconds (with the file system and the answers
  of the kernel at that moment) and the atomic stores other goroutines make to \<open>stopWatching\<close>.
\<close>

section \<open>The monitor\<close>

record monitor =
  haproxyPIDFile :: string
  stopWatching :: "32 word"

definition Monitor_New :: "string \<Rightarrow> monitor" where
  "Monitor_New pidFile = \<lparr>haproxyPIDFile = pidFile, stopWatching = 0\<rparr>"

definition StartWatching :: "monitor \<Rightarrow> monitor" where
  "StartWatching m = m\<lparr>stopWatching := 0\<rparr>"

definition StopWatching :: "monitor \<Rightarrow> monitor" where
  "StopWatching m = m\<lparr>stopWatching := 1\<rparr>"

text \<open>\<open>os.FindProcess\<close> finds every process on Unix; \<open>Process.Signal\<close> refuses the identifiers 0
  and -1 and otherwise answers as the kernel does, which \<open>kill0\<close> stands for.\<close>

definition os_FindProcess :: "int \<Rightarrow> go_error + int" where
  "os_FindProcess pid = Inr pid"

definition process_Signal0 :: "(int \<Rightarrow> go_error option) \<Rightarrow> int \<Rightarrow> go_error option" where
  "process_Signal0 kill0 pid =
     (if pid = -1 then Some ''os: process already released''
      else if pid = 0 then Some ''os: process not initialized''
      else kill0 pid)"

definition running :: "(int \<Rightarrow> go_error option) \<Rightarrow> int \<Rightarrow> bool" where
  "running kill0 pid =
     (case os_FindProcess pid of
        Inl e \<Rightarrow> False
      | Inr process \<Rightarrow> (case process_Signal0 kill0 process of Some e \<Rightarrow> False | None \<Rightarrow> True))"

datatype watch_error = ReadError go_error | ConvertError string num_error | PIDNotFound int

definition watchPID ::
  "(int \<Rightarrow> go_error option) \<Rightarrow> string \<Rightarrow> 'a os_world_scheme \<Rightarrow> watch_error option \<times> 'a os_world_scheme" where
  "watchPID kill0 pidFile w =
     (case os_ReadFile pidFile w of
        (Inl e, w1) \<Rightarrow> (Some (ReadError e), w1)
      | (Inr fileBytes, w1) \<Rightarrow>
          (let data = TrimSpace fileBytes; (pid, err) = Atoi data in
           case err of
             Some e \<Rightarrow> (Some (ConvertError data e), w1)
           | None \<Rightarrow> (if \<not> running kill0 pid then (Some (PIDNotFound pid), w1) else (None, w1))))"

datatype monitor_event =
    StartWatchingCalled
  | StopWatchingCalled
  | AfterSecond "os_world" "int \<Rightarrow> go_error option"

fun Monitor_step :: "monitor \<Rightarrow> monitor_event loop_event \<Rightarrow> (watch_error, monitor) outcome" where
  "Monitor_step m (Received sig) = (if sig \<noteq> SIGUSR2 then Returned None m else Running m)"
| "Monitor_step m (Internal StartWatchingCalled) = Running (StartWatching m)"
| "Monitor_step m (Internal StopWatchingCalled) = Running (StopWatching m)"
| "Monitor_step m (Internal (AfterSecond w kill0)) =
     (if stopWatching m = 0 then
        (case fst (watchPID kill0 (haproxyPIDFile m) w) of
           Some e \<Rightarrow> Returned (Some e) m
         | None \<Rightarrow> Running m)
      else Running m)"

definition Monitor_Run ::
  "monitor \<Rightarrow> monitor_event loop_event list \<Rightarrow> (watch_error, monitor) outcome" where
  "Monitor_Run m events = runLoop Monitor_step m events"

interpretation mon: usr2_deaf_runner Monitor_step
  by unfold_locales simp_all

section \<open>What the monitor guarantees\<close>

text \<open>The PID file names a live process.\<close>

definition pid_alive :: "(int \<Rightarrow> go_error option) \<Rightarrow> string \<Rightarrow> bool" where
  "pid_alive kill0 content \<longleftrightarrow> (\<exists>pid. Atoi (TrimSpace content) = (pid, None)
     \<and> pid \<noteq> 0 \<and> pid \<noteq> -1 \<and> kill0 pid = None)"

lemma running_iff: "running kill0 pid \<longleftrightarrow> pid \<noteq> 0 \<and> pid \<noteq> -1 \<and> kill0 pid = None"
  by (auto simp: running_def os_FindProcess_def process_Signal0_def split: option.splits)

lemma watchPID_ok_iff:
  "fst (watchPID kill0 pf w) = None \<longleftrightarrow>
     (\<exists>content. fst (os_ReadFile pf w) = Inr content \<and> pid_alive kill0 content)"
  by (cases "os_ReadFile pf w")
    (auto simp: watchPID_def Let_def pid_alive_def running_iff split: sum.splits option.splits prod.splits)

text \<open>The value of \<open>stopWatching\<close> after a sequence of events is that of the last store.\<close>

fun watching_after :: "bool \<Rightarrow> monitor_event loop_event list \<Rightarrow> bool" where
  "watching_after b [] = b"
| "watching_after b (e # es) = watching_after
     (if e = Internal StartWatchingCalled then True
      else if e = Internal StopWatchingCalled then False else b) es"

lemma Monitor_step_running:
  "Monitor_step m e = Running m' \<Longrightarrow> haproxyPIDFile m' = haproxyPIDFile m
   \<and> (stopWatching m' = 0 \<longleftrightarrow> watching_after (stopWatching m = 0) [e])"
  by (cases "(m, e)" rule: Monitor_step.cases)
    (auto simp: StartWatching_def StopWatching_def split: if_splits option.splits)

lemma Monitor_loop_running_iff:
  "is_running (runLoop Monitor_step m es) \<longleftrightarrow>
     (\<forall>pre e post. es = pre @ e # post \<longrightarrow> \<not> stops e
        \<and> (\<forall>w kill0. e = Internal (AfterSecond w kill0) \<and> watching_after (stopWatching m = 0) pre
             \<longrightarrow> fst (watchPID kill0 (haproxyPIDFile m) w) = None))"
proof (induction es arbitrary: m)
  case (Cons e es)
  have one: "is_running (Monitor_step m e) \<longleftrightarrow> \<not> stops e \<and> (\<forall>w kill0.
      e = Internal (AfterSecond w kill0) \<and> stopWatching m = 0
        \<longrightarrow> fst (watchPID kill0 (haproxyPIDFile m) w) = None)"
    by (cases "(m, e)" rule: Monitor_step.cases) (auto split: option.splits)
  show ?case
  proof (cases "Monitor_step m e")
    case (Running m')
    note keep = Monitor_step_running [OF Running]
    have "is_running (runLoop Monitor_step m (e # es)) \<longleftrightarrow> is_running (runLoop Monitor_step m' es)"
      by (simp add: Running)
    then show ?thesis
      using one keep Running unfolding Cons.IH all_positions_Cons by simp
  next
    case (Returned err m')
    then have "\<not> is_running (runLoop Monitor_step m (e # es))" "\<not> is_running (Monitor_step m e)" by auto
    then show ?thesis using one unfolding all_positions_Cons
      by (simp del: watching_after.simps(2) runLoop.simps(2)) blast
  qed
qed simp

text \<open>(C20) The monitor keeps running exactly as long as no signal but SIGUSR2 arrives and every
  check made while watching is on finds the PID file readable and naming a process that is alive.
  So a dead HAProxy ends the router at the next second unless the last store to
  \<open>stopWatching\<close> was that of \<open>StopWatching\<close>.\<close>

theorem monitor_runs_while_alive:
  "(\<exists>m'. Monitor_Run m es = Running m') \<longleftrightarrow>
     (\<forall>pre e post. es = pre @ e # post \<longrightarrow>
        (\<forall>sig. e = Received sig \<longrightarrow> sig = SIGUSR2)
        \<and> (\<forall>w kill0. e = Internal (AfterSecond w kill0) \<and> watching_after (stopWatching m = 0) pre
             \<longrightarrow> (\<exists>content. fst (os_ReadFile (haproxyPIDFile m) w) = Inr content \<and> pid_alive kill0 content)))"
proof -
  have "\<not> stops e \<longleftrightarrow> (\<forall>sig. e = Received sig \<longrightarrow> sig = SIGUSR2)" for e :: "monitor_event loop_event"
    by (cases e) auto
  then show ?thesis
    unfolding Monitor_Run_def Monitor_loop_running_iff watchPID_ok_iff by simp
qed

text \<open>A world for examples: a PID file, no faults, one live process.\<close>

definition sample_pid_world :: "nat \<Rightarrow> os_world" where
  "sample_pid_world pid = \<lparr>fs_files = [''haproxy.pid'' \<mapsto> showNat pid @ [CHR 10]], fs_faults = []\<rparr>"

definition only_alive :: "int \<Rightarrow> int \<Rightarrow> go_error option" where
  "only_alive pid p = (if p = pid then None else Some ''no such process'')"

theorem monitor_runs_while_alive_witness:
  "(\<nexists>m'. Monitor_Run (Monitor_New ''haproxy.pid'') [Received SIGUSR2,
      Internal (AfterSecond (sample_pid_world 7) (only_alive 8))] = Running m')"
proof -
  let ?es = "[Received SIGUSR2, Internal (AfterSecond (sample_pid_world 7) (only_alive 8))]"
  have "fst (os_ReadFile ''haproxy.pid'' (sample_pid_world 7)) = Inr (showNat 7 @ [CHR 10])"
    by (simp add: sample_pid_world_def)
  moreover have "\<not> pid_alive (only_alive 8) (showNat 7 @ [CHR 10])"
    using TrimSpace_plain [of "[]" "[CHR 10]" "showNat 7"] Atoi_showNat [of 7]
    by (simp add: pid_alive_def only_alive_def showNat_plain)
  ultimately show ?thesis
    unfolding monitor_runs_while_alive
    by (auto simp: Monitor_New_def intro!: exI [of _ "[Received SIGUSR2]"])
qed

text \<open>What the reloader writes is understood: for a process number written in decimal, with
  any ASCII white space around it, the check succeeds exactly when that process is alive.\<close>

lemma pid_file_roundtrip:
  assumes "fs_faults w = []" "fs_files w pf = Some (a @ showNat pid @ b)"
    "list_all ascii_space a" "list_all ascii_space b" "0 < pid" "pid < 2 ^ 63"
  shows "fst (watchPID kill0 pf w) = (if kill0 (int pid) = None then None else Some (PIDNotFound (int pid)))"
proof -
  have "TrimSpace (a @ showNat pid @ b) = showNat pid"
    using assms by (intro TrimSpace_plain) (auto simp: showNat_plain)
  then show ?thesis using assms by (simp add: watchPID_def Atoi_showNat running_iff)
qed

lemma pid_file_roundtrip_witness:
  "fst (watchPID (only_alive 8) ''haproxy.pid'' (sample_pid_world 7)) = Some (PIDNotFound 7)"
  using pid_file_roundtrip [of "sample_pid_world 7" "''haproxy.pid''" "[]" 7 "[CHR 10]" "only_alive 8"]
  by (simp add: sample_pid_world_def only_alive_def)

end
