(* ===== verification/Updater.thy ===== *)
theory Updater
  imports Routing_Table
begin

text \<open>
  The updater of \<open>routing_table/updater.go\<close>: it owns the routing table, applies the events of
  the routing API to it, replaces it in bulk syncs, caches the events that arrive meanwhile,
  prunes stale routes and drains the router.

  The configurer, the UAA token fetcher and the client of the routing API are interfaces. Their
  calls are the fields of \<open>services\<close>, functions on a world \<open>'w\<close>, as is \<open>SucceededBy\<close> of the
  modification tags; \<open>sv_clock\<close> is the sequence of the readings of \<open>time.Now()\<close> and \<open>up_tick\<close>
  the number of the next one. \<open>Sync\<close> holds the lock twice and not in between; its three parts
  are definitions of their own, so that other operations can be put between them.
\<close>

section \<open>Data\<close>

record 'tag TcpRouteMapping =
  rm_ExternalPort :: u16
  rm_SniHostname :: "string option"
  rm_HostIP :: string
  rm_HostPort :: u16
  rm_HostTLSPort :: int
  rm_InstanceId :: string
  rm_ModificationTag :: 'tag
  rm_TTL :: "int option"

record 'tag TcpEvent =
  ev_TcpRouteMapping :: "'tag TcpRouteMapping"
  ev_Action :: string

record ('tag, 'w) services =
  sv_SucceededBy :: "'tag \<Rightarrow> 'tag \<Rightarrow> bool"
  sv_clock :: "nat \<Rightarrow> time"
  sv_Configure :: "'tag RoutingTable \<Rightarrow> bool \<Rightarrow> 'w \<Rightarrow> go_error option \<times> 'w"
  sv_FetchToken :: "bool \<Rightarrow> 'w \<Rightarrow> (go_error + string) \<times> 'w"
  sv_SetToken :: "string \<Rightarrow> 'w \<Rightarrow> 'w"
  sv_TcpRouteMappings :: "'w \<Rightarrow> (go_error + 'tag TcpRouteMapping list) \<times> 'w"

record 'tag updater =
  up_routingTable :: "'tag RoutingTable"
  up_syncing :: bool
  up_cachedEvents :: "'tag TcpEvent list"
  up_defaultTTL :: int
  up_drainWaitDuration :: duration
  up_isDraining :: bool
  up_tick :: nat

definition NewUpdater :: "'tag RoutingTable \<Rightarrow> int \<Rightarrow> duration \<Rightarrow> 'tag updater" where
  "NewUpdater routingTable defaultTTL drainWaitDuration =
     \<lparr>up_routingTable = routingTable, up_syncing = False, up_cachedEvents = [],
      up_defaultTTL = defaultTTL, up_drainWaitDuration = drainWaitDuration,
      up_isDraining = False, up_tick = 0\<rparr>"

section \<open>Events\<close>

definition toRoutingTableEntry ::
  "'tag TcpRouteMapping \<Rightarrow> RoutingKey \<times> 'tag BackendServerInfo" where
  "toRoutingTableEntry routeMapping =
     (let hostname = (case rm_SniHostname routeMapping of Some h \<Rightarrow> h | None \<Rightarrow> '''');
          routingKey = \<lparr>rk_Port = rm_ExternalPort routeMapping, rk_SniHostname = SniHostname hostname\<rparr>;
          ttl = (case rm_TTL routeMapping of Some n \<Rightarrow> n | None \<Rightarrow> 0);
          backendServerInfo =
            \<lparr>bi_Address = rm_HostIP routeMapping, bi_Port = rm_HostPort routeMapping,
             bi_TLSPort = rm_HostTLSPort routeMapping, bi_InstanceID = rm_InstanceId routeMapping,
             bi_ModificationTag = rm_ModificationTag routeMapping, bi_TTL = ttl\<rparr>
      in (routingKey, backendServerInfo))"

text \<open>The rest of \<open>handleUpsert\<close> and \<open>handleDelete\<close> after the call to the table.\<close>

definition configureIfChanged ::
  "('tag, 'w) services \<Rightarrow> bool \<Rightarrow> 'tag updater \<times> 'w
   \<Rightarrow> (bool \<times> go_error option) \<times> 'tag updater \<times> 'w" where
  "configureIfChanged S tableChanged st =
     (let (u, w) = st in
      if tableChanged \<and> \<not> up_syncing u then
        (let (err, w') = sv_Configure S (up_routingTable u) (up_isDraining u) w
         in ((True, err), u, w'))
      else ((tableChanged, None), u, w))"

definition handleUpsert ::
  "('tag, 'w) services \<Rightarrow> 'tag TcpRouteMapping \<Rightarrow> 'tag updater \<times> 'w
   \<Rightarrow> (bool \<times> go_error option) \<times> 'tag updater \<times> 'w" where
  "handleUpsert S routeMapping st =
     (let (u, w) = st;
          (routingKey, backendServerInfo) = toRoutingTableEntry routeMapping;
          (table', tableChanged) = UpsertBackendServerKey (sv_SucceededBy S) (sv_clock S (up_tick u))
             routingKey backendServerInfo (up_routingTable u)
      in configureIfChanged S tableChanged
           (u\<lparr>up_routingTable := table', up_tick := Suc (up_tick u)\<rparr>, w))"

definition handleDelete ::
  "('tag, 'w) services \<Rightarrow> 'tag TcpRouteMapping \<Rightarrow> 'tag updater \<times> 'w
   \<Rightarrow> (bool \<times> go_error option) \<times> 'tag updater \<times> 'w" where
  "handleDelete S routeMapping st =
     (let (u, w) = st;
          (routingKey, backendServerInfo) = toRoutingTableEntry routeMapping;
          (table', tableChanged) = DeleteBackendServerKey (sv_SucceededBy S) (sv_clock S (up_tick u))
             routingKey backendServerInfo (up_routingTable u)
      in configureIfChanged S tableChanged
           (u\<lparr>up_routingTable := table', up_tick := Suc (up_tick u)\<rparr>, w))"

definition handleEvent ::
  "('tag, 'w) services \<Rightarrow> 'tag TcpEvent \<Rightarrow> 'tag updater \<times> 'w
   \<Rightarrow> (bool \<times> go_error option) \<times> 'tag updater \<times> 'w" where
  "handleEvent S event st =
     (let action = ev_Action event in
      if action = ''Upsert'' then handleUpsert S (ev_TcpRouteMapping event) st
      else if action = ''Delete'' then handleDelete S (ev_TcpRouteMapping event) st
      else ((False, Some (''unknown-event-action:'' @ action)), st))"

definition HandleEvent ::
  "('tag, 'w) services \<Rightarrow> 'tag TcpEvent \<Rightarrow> 'tag updater \<times> 'w \<Rightarrow> go_error option \<times> 'tag updater \<times> 'w" where
  "HandleEvent S event st =
     (let (u, w) = st in
      if up_syncing u then (None, u\<lparr>up_cachedEvents := up_cachedEvents u @ [event]\<rparr>, w)
      else let ((_, err), st') = handleEvent S event (u, w) in (err, st'))"

section \<open>Bulk sync\<close>

fun cachedEventsLoop ::
  "('tag, 'w) services \<Rightarrow> 'tag TcpEvent list \<Rightarrow> bool \<Rightarrow> 'tag updater \<times> 'w \<Rightarrow> bool \<times> 'tag updater \<times> 'w" where
  "cachedEventsLoop S [] tableChanged st = (tableChanged, st)"
| "cachedEventsLoop S (e # es) tableChanged st =
     (let ((changeTriggered, _), st') = handleEvent S e st
      in cachedEventsLoop S es (if changeTriggered then True else tableChanged) st')"

definition applyCachedEvents ::
  "('tag, 'w) services \<Rightarrow> 'tag updater \<times> 'w \<Rightarrow> bool \<times> 'tag updater \<times> 'w" where
  "applyCachedEvents S st = cachedEventsLoop S (up_cachedEvents (fst st)) False st"

definition syncBegin :: "'tag updater \<Rightarrow> 'tag updater" where
  "syncBegin u = u\<lparr>up_syncing := True, up_cachedEvents := []\<rparr>"

text \<open>The loop over \<open>count\<close>. \<open>None\<close>: \<open>Sync\<close> returns from inside it; otherwise what \<open>err\<close> and
  \<open>tcpRouteMappings\<close> are after it.\<close>

fun fetchLoop ::
  "('tag, 'w) services \<Rightarrow> nat \<Rightarrow> bool \<Rightarrow> go_error + 'tag TcpRouteMapping list \<Rightarrow> 'w
   \<Rightarrow> (go_error + 'tag TcpRouteMapping list) option \<times> 'w" where
  "fetchLoop S 0 useCachedToken fetched w = (Some fetched, w)"
| "fetchLoop S (Suc rounds) useCachedToken fetched w =
     (case sv_FetchToken S (\<not> useCachedToken) w of
        (Inl tokenErr, w1) \<Rightarrow> (None, w1)
      | (Inr token, w1) \<Rightarrow>
          (case sv_TcpRouteMappings S (sv_SetToken S token w1) of
             (Inl err, w2) \<Rightarrow>
               if err = ''unauthorized'' then fetchLoop S rounds False (Inl err) w2
               else (None, w2)
           | (Inr tcpRouteMappings, w2) \<Rightarrow> (Some (Inr tcpRouteMappings), w2)))"

definition fetchRoutes ::
  "('tag, 'w) services \<Rightarrow> 'w \<Rightarrow> (go_error + 'tag TcpRouteMapping list) option \<times> 'w" where
  "fetchRoutes S w = fetchLoop S 2 True (Inr []) w"

text \<open>The loop over the fetched mappings: each is put into the table and into the fresh one, with
  one clock reading each.\<close>

fun mergeLoop ::
  "('tag, 'w) services \<Rightarrow> 'tag TcpRouteMapping list \<Rightarrow> nat \<Rightarrow> 'tag RoutingTable \<Rightarrow> 'tag RoutingTable \<Rightarrow> bool
   \<Rightarrow> 'tag RoutingTable \<times> 'tag RoutingTable \<times> bool \<times> nat" where
  "mergeLoop S [] tick table fresh tableChanged = (table, fresh, tableChanged, tick)"
| "mergeLoop S (routeMapping # rest) tick table fresh tableChanged =
     (let (routingKey, backendServerInfo) = toRoutingTableEntry routeMapping;
          (table', changed) = UpsertBackendServerKey (sv_SucceededBy S) (sv_clock S tick)
             routingKey backendServerInfo table;
          (fresh', _) = UpsertBackendServerKey (sv_SucceededBy S) (sv_clock S (Suc tick))
             routingKey backendServerInfo fresh
      in mergeLoop S rest (Suc (Suc tick)) table' fresh' (if changed then True else tableChanged))"

definition mergeRoutes ::
  "('tag, 'w) services \<Rightarrow> 'tag TcpRouteMapping list \<Rightarrow> 'tag updater \<Rightarrow> bool \<times> 'tag updater" where
  "mergeRoutes S tcpRouteMappings u =
     (let (table, fresh, tableChanged, tick) =
            mergeLoop S tcpRouteMappings (up_tick u) (up_routingTable u) NewRoutingTable False
      in if Size fresh \<noteq> Size table
         then (True, u\<lparr>up_routingTable := table\<lparr>Entries := Entries fresh\<rparr>, up_tick := tick\<rparr>)
         else (tableChanged, u\<lparr>up_routingTable := table, up_tick := tick\<rparr>))"

definition syncFetched ::
  "('tag, 'w) services \<Rightarrow> (go_error + 'tag TcpRouteMapping list) option \<Rightarrow> 'tag updater \<Rightarrow> bool \<times> 'tag updater" where
  "syncFetched S fetched u =
     (case fetched of
        Some (Inr tcpRouteMappings) \<Rightarrow> mergeRoutes S tcpRouteMappings u
      | _ \<Rightarrow> (False, u))"

text \<open>The deferred function.\<close>

definition syncEnd :: "('tag, 'w) services \<Rightarrow> bool \<Rightarrow> 'tag updater \<times> 'w \<Rightarrow> 'tag updater \<times> 'w" where
  "syncEnd S tableChanged st =
     (let (applied, u, w) = applyCachedEvents S st;
          w' = (if tableChanged \<or> applied
                then snd (sv_Configure S (up_routingTable u) (up_isDraining u) w) else w)
      in (u\<lparr>up_syncing := False, up_cachedEvents := []\<rparr>, w'))"

definition Sync :: "('tag, 'w) services \<Rightarrow> 'tag updater \<times> 'w \<Rightarrow> 'tag updater \<times> 'w" where
  "Sync S st =
     (let (u, w) = st;
          u1 = syncBegin u;
          (fetched, w1) = fetchRoutes S w;
          (tableChanged, u2) = syncFetched S fetched u1
      in syncEnd S tableChanged (u2, w1))"

section \<open>Pruning and draining\<close>

definition PruneStaleRoutes :: "('tag, 'w) services \<Rightarrow> 'tag updater \<Rightarrow> 'tag updater" where
  "PruneStaleRoutes S u =
     (let (table', tick') = PruneEntries (sv_clock S) (up_defaultTTL u) (up_tick u) (up_routingTable u)
      in u\<lparr>up_routingTable := table', up_tick := tick'\<rparr>)"

definition Syncing :: "'tag updater \<Rightarrow> bool" where "Syncing u = up_syncing u"

definition IsDraining :: "'tag updater \<Rightarrow> bool" where "IsDraining u = up_isDraining u"

text \<open>\<open>Drain\<close> first sleeps until no sync is running; \<open>others\<close> is what the rest of the program
  does to the state during a sleep. The loop may run forever.\<close>

partial_function (option) drainWait ::
  "('tag updater \<times> 'w \<Rightarrow> 'tag updater \<times> 'w) \<Rightarrow> 'tag updater \<times> 'w \<Rightarrow> ('tag updater \<times> 'w) option" where
  "drainWait others st = (if Syncing (fst st) then drainWait others (others st) else Some st)"

declare drainWait.simps [code]

definition Drain ::
  "('tag, 'w) services \<Rightarrow> ('tag updater \<times> 'w \<Rightarrow> 'tag updater \<times> 'w) \<Rightarrow> (duration \<Rightarrow> 'tag updater \<times> 'w \<Rightarrow> 'tag updater \<times> 'w)
   \<Rightarrow> 'tag updater \<times> 'w \<Rightarrow> (go_error option \<times> 'tag updater \<times> 'w) option" where
  "Drain S others sleepFor st =
     (case drainWait others st of
        None \<Rightarrow> None
      | Some (u, w) \<Rightarrow>
          if IsDraining u then Some (None, u, w)
          else let u1 = u\<lparr>up_isDraining := True\<rparr>;
                   (err, w1) = sv_Configure S (up_routingTable u1) (IsDraining u1) w
               in case err of
                    Some e \<Rightarrow> Some (Some e, u1, w1)
                  | None \<Rightarrow> Some (None, sleepFor (up_drainWaitDuration u1) (u1, w1)))"

section \<open>Events and the table\<close>

text \<open>What an event does to the table, and a list of events one after the other.\<close>

definition known_action :: "'tag TcpEvent \<Rightarrow> bool" where
  "known_action e \<longleftrightarrow> ev_Action e \<in> {''Upsert'', ''Delete''}"

definition event_table ::
  "('tag \<Rightarrow> 'tag \<Rightarrow> bool) \<Rightarrow> time \<Rightarrow> 'tag TcpEvent \<Rightarrow> 'tag RoutingTable \<Rightarrow> 'tag RoutingTable \<times> bool" where
  "event_table succ now e t =
     (let (k, info) = toRoutingTableEntry (ev_TcpRouteMapping e) in
      if ev_Action e = ''Upsert'' then UpsertBackendServerKey succ now k info t
      else if ev_Action e = ''Delete'' then DeleteBackendServerKey succ now k info t
      else (t, False))"

fun events_table ::
  "('tag \<Rightarrow> 'tag \<Rightarrow> bool) \<Rightarrow> (nat \<Rightarrow> time) \<Rightarrow> nat \<Rightarrow> 'tag TcpEvent list \<Rightarrow> 'tag RoutingTable
   \<Rightarrow> 'tag RoutingTable \<times> bool \<times> nat" where
  "events_table succ clk n [] t = (t, False, n)"
| "events_table succ clk n (e # es) t =
     (let (t1, c1) = event_table succ (clk n) e t;
          (t2, c2, n2) = events_table succ clk (if known_action e then Suc n else n) es t1
      in (t2, c1 \<or> c2, n2))"

lemma handleEvent_known:
  assumes "known_action e"
  shows "handleEvent S e (u, w) =
    (let (t, c) = event_table (sv_SucceededBy S) (sv_clock S (up_tick u)) e (up_routingTable u)
     in configureIfChanged S c (u\<lparr>up_routingTable := t, up_tick := Suc (up_tick u)\<rparr>, w))"
  using assms
  by (auto simp: handleEvent_def known_action_def event_table_def handleUpsert_def handleDelete_def
      Let_def split: prod.splits)

lemma handleEvent_unknown:
  "\<not> known_action e \<Longrightarrow>
     handleEvent S e st = ((False, Some (''unknown-event-action:'' @ ev_Action e)), st)"
  by (auto simp: handleEvent_def known_action_def)

lemma event_table_unknown [simp]: "\<not> known_action e \<Longrightarrow> event_table succ now e t = (t, False)"
  by (auto simp: event_table_def known_action_def split: prod.splits)

lemma wf_event_table [wf_intros]: "wf_table t \<Longrightarrow> wf_table (fst (event_table succ now e t))"
  by (auto simp: event_table_def Let_def case_prod_beta intro: wf_intros)

lemma event_table_flag:
  assumes "wf_table t"
  shows "snd (event_table succ now e t) \<longleftrightarrow> table_pairs (fst (event_table succ now e t)) \<noteq> table_pairs t"
  using rt.upsert_changed [OF assms] rt.delete_changed [OF assms]
  by (auto simp: event_table_def Let_def case_prod_beta)

lemma wf_events_table: "wf_table t \<Longrightarrow> wf_table (fst (events_table succ clk n es t))"
  by (induction es arbitrary: n t) (simp_all add: Let_def case_prod_beta wf_intros)

lemma events_table_flag:
  assumes "wf_table t" "\<not> fst (snd (events_table succ clk n es t))"
  shows "table_pairs (fst (events_table succ clk n es t)) = table_pairs t"
  using assms
proof (induction es arbitrary: n t)
  case (Cons e es)
  then have "\<not> snd (event_table succ (clk n) e t)" by (simp add: Let_def case_prod_beta)
  then have "table_pairs (fst (event_table succ (clk n) e t)) = table_pairs t"
    using event_table_flag [OF Cons.prems(1)] by blast
  with Cons show ?case by (simp add: Let_def case_prod_beta wf_intros)
qed simp

text \<open>While a sync runs, events change the table only: the configurer is not called.\<close>

lemma cachedEventsLoop_syncing:
  "up_syncing u \<Longrightarrow> cachedEventsLoop S es c (u, w) =
     (let (t, c', n) = events_table (sv_SucceededBy S) (sv_clock S) (up_tick u) es (up_routingTable u)
      in (c \<or> c', u\<lparr>up_routingTable := t, up_tick := n\<rparr>, w))"
proof (induction es arbitrary: u c)
  case (Cons e es)
  show ?case
  proof (cases "known_action e")
    case True
    then show ?thesis using Cons
      by (simp add: handleEvent_known configureIfChanged_def Let_def case_prod_beta)
  next
    case False
    then show ?thesis using Cons by (simp add: handleEvent_unknown Let_def case_prod_beta)
  qed
qed simp

lemma syncEnd_eq:
  assumes "up_syncing u"
  shows "syncEnd S c (u, w) =
    (let (t, c', n) = events_table (sv_SucceededBy S) (sv_clock S) (up_tick u) (up_cachedEvents u) (up_routingTable u)
     in (u\<lparr>up_routingTable := t, up_tick := n, up_syncing := False, up_cachedEvents := []\<rparr>,
         if c \<or> c' then snd (sv_Configure S t (up_isDraining u) w) else w))"
  using assms
  by (simp add: syncEnd_def applyCachedEvents_def cachedEventsLoop_syncing Let_def case_prod_beta)

section \<open>Merging the fetched routes\<close>

text \<open>The merge loop is two sequences of upserts of the same routes at different times.\<close>

fun timed :: "(nat \<Rightarrow> time) \<Rightarrow> nat \<Rightarrow> 'tag TcpRouteMapping list \<Rightarrow> (time \<times> RoutingKey \<times> 'tag BackendServerInfo) list" where
  "timed clk n [] = []"
| "timed clk n (m # ms) = (clk n, toRoutingTableEntry m) # timed clk (Suc (Suc n)) ms"

lemma timed_routes: "map snd (timed clk n ms) = map toRoutingTableEntry ms"
  by (induction ms arbitrary: n) auto

lemma mergeLoop_eq:
  "mergeLoop S ms n t f c =
     (fst (upsert_all (UpsertBackendServerKey (sv_SucceededBy S)) (timed (sv_clock S) n ms) t),
      fst (upsert_all (UpsertBackendServerKey (sv_SucceededBy S)) (timed (sv_clock S) (Suc n) ms) f),
      c \<or> snd (upsert_all (UpsertBackendServerKey (sv_SucceededBy S)) (timed (sv_clock S) n ms) t),
      n + 2 * length ms)"
proof (induction ms arbitrary: n t f c)
  case (Cons m ms)
  obtain k info where m: "toRoutingTableEntry m = (k, info)" by force
  show ?case by (simp add: m Cons.IH Let_def case_prod_beta)
qed simp

definition mapping_pair :: "'tag TcpRouteMapping \<Rightarrow> RoutingKey \<times> BackendServerKey" where
  "mapping_pair m = (fst (toRoutingTableEntry m), info_key (snd (toRoutingTableEntry m)))"

lemma timed_pairs: "(\<lambda>x. (fst (snd x), info_key (snd (snd x)))) ` set (timed clk n ms) = mapping_pair ` set ms"
proof -
  have "(\<lambda>x. (fst (snd x), info_key (snd (snd x)))) ` set (timed clk n ms) =
      (\<lambda>y. (fst y, info_key (snd y))) ` set (map snd (timed clk n ms))" by (simp add: image_comp comp_def)
  then show ?thesis by (simp add: timed_routes image_comp comp_def mapping_pair_def)
qed

text \<open>The table after a merge. The fetched routes replace the old ones exactly when an old route
  was not fetched; the flag tells whether the set of backends changed.\<close>

lemma mergeRoutes_pairs:
  assumes wf: "wf_table (up_routingTable u)"
    and keys: "stale = (\<not> fst ` table_pairs (up_routingTable u) \<subseteq> fst ` mapping_pair ` set ms)"
  shows "wf_table (up_routingTable (snd (mergeRoutes S ms u)))"
    and "table_pairs (up_routingTable (snd (mergeRoutes S ms u))) =
      (if stale then {} else table_pairs (up_routingTable u)) \<union> mapping_pair ` set ms"
    and "fst (mergeRoutes S ms u) \<longleftrightarrow>
      table_pairs (up_routingTable (snd (mergeRoutes S ms u))) \<noteq> table_pairs (up_routingTable u)"
proof -
  let ?up = "UpsertBackendServerKey (sv_SucceededBy S)"
  let ?t = "up_routingTable u"
  define xs where "xs = timed (sv_clock S) (up_tick u) ms"
  define ys where "ys = timed (sv_clock S) (Suc (up_tick u)) ms"
  define old new where "old = fst (upsert_all ?up xs ?t)" and "new = fst (upsert_all ?up ys NewRoutingTable)"
  have wfs: "wf_table old" "wf_table new" unfolding old_def new_def by (auto intro: rt.ok_upsert_all wf)
  have po: "table_pairs old = table_pairs ?t \<union> mapping_pair ` set ms"
    using wf by (simp add: old_def xs_def rt.pairs_upsert_all timed_pairs)
  have pn: "table_pairs new = mapping_pair ` set ms"
    by (simp add: new_def ys_def rt.pairs_upsert_all timed_pairs)
  have "(fst \<circ> snd) ` set xs = fst ` mapping_pair ` set ms"
    unfolding xs_def timed_pairs [of "sv_clock S" "up_tick u" ms, symmetric] by (simp add: image_comp comp_def)
  then have size: "Size new \<noteq> Size old \<longleftrightarrow> stale"
    using rt.same_size_iff_same_routes [OF wf, of xs ys "sv_SucceededBy S"] keys
    by (simp add: xs_def ys_def timed_routes old_def new_def)
  have merge: "mergeRoutes S ms u =
      (if stale then (True, u\<lparr>up_routingTable := new, up_tick := up_tick u + 2 * length ms\<rparr>)
       else (snd (upsert_all ?up xs ?t), u\<lparr>up_routingTable := old, up_tick := up_tick u + 2 * length ms\<rparr>))"
    using size by (simp add: mergeRoutes_def mergeLoop_eq xs_def [symmetric] ys_def [symmetric] old_def new_def)
  show "wf_table (up_routingTable (snd (mergeRoutes S ms u)))" using wfs by (simp add: merge)
  show pairs: "table_pairs (up_routingTable (snd (mergeRoutes S ms u))) =
      (if stale then {} else table_pairs ?t) \<union> mapping_pair ` set ms" using po pn by (simp add: merge)
  have "\<not> stale \<Longrightarrow> snd (upsert_all ?up xs ?t) \<longleftrightarrow> table_pairs old \<noteq> table_pairs ?t"
    using rt.upsert_all_changed [OF wf, of "sv_SucceededBy S" xs] by (simp add: old_def)
  moreover have "stale \<Longrightarrow> mapping_pair ` set ms \<noteq> table_pairs ?t" using keys by auto
  ultimately show "fst (mergeRoutes S ms u) \<longleftrightarrow>
      table_pairs (up_routingTable (snd (mergeRoutes S ms u))) \<noteq> table_pairs ?t"
    using po pn by (simp add: merge)
qed

section \<open>Properties of the updater\<close>

text \<open>(C3) An event that arrives while no sync runs is applied to the table at once. The
  configurer is called exactly when the event changed the set of backends, with the new table and
  the drain flag, and its error is returned; an event that changes no backend calls nothing, and
  an event with an unknown action is an error that changes nothing.\<close>

theorem handle_event_correct:
  assumes "wf_table (up_routingTable u)" "\<not> up_syncing u" "HandleEvent S e (u, w) = (err, u', w')"
    and "t = fst (event_table (sv_SucceededBy S) (sv_clock S (up_tick u)) e (up_routingTable u))"
  shows "wf_table (up_routingTable u')
    \<and> (if ev_Action e \<in> {''Upsert'', ''Delete''} then
         u' = u\<lparr>up_routingTable := t, up_tick := Suc (up_tick u)\<rparr>
         \<and> (err, w') = (if table_pairs t = table_pairs (up_routingTable u) then (None, w)
              else sv_Configure S t (up_isDraining u) w)
       else err = Some (''unknown-event-action:'' @ ev_Action e) \<and> u' = u \<and> w' = w)"
proof (cases "known_action e")
  case True
  obtain c where c: "event_table (sv_SucceededBy S) (sv_clock S (up_tick u)) e (up_routingTable u) = (t, c)"
    using assms(4) by (cases "event_table (sv_SucceededBy S) (sv_clock S (up_tick u)) e (up_routingTable u)") auto
  have "wf_table t" unfolding assms(4) using assms(1) by (rule wf_event_table)
  moreover have "c \<longleftrightarrow> table_pairs t \<noteq> table_pairs (up_routingTable u)"
    using event_table_flag [OF assms(1), of "sv_SucceededBy S" "sv_clock S (up_tick u)" e] c by simp
  ultimately show ?thesis
    using assms(2,3) True
    by (auto simp: HandleEvent_def handleEvent_known c configureIfChanged_def known_action_def Let_def
        split: prod.splits if_splits)
next
  case False
  then show ?thesis
    using assms by (auto simp: HandleEvent_def handleEvent_unknown known_action_def Let_def)
qed

text \<open>Services for examples: tags are numbers, the world is the list of the tables given to the
  configurer, with the drain flag, and the routing API answers with a fixed list.\<close>

type_synonym sample_calls = "(nat RoutingTable \<times> bool) list"

definition sample_services :: "nat TcpRouteMapping list \<Rightarrow> (nat, sample_calls) services" where
  "sample_services ms =
     \<lparr>sv_SucceededBy = (<), sv_clock = (\<lambda>n. int n * second),
      sv_Configure = (\<lambda>t f w. (None, w @ [(t, f)])),
      sv_FetchToken = (\<lambda>force w. (Inr ''token'', w)), sv_SetToken = (\<lambda>token w. w),
      sv_TcpRouteMappings = (\<lambda>w. (Inr ms, w))\<rparr>"

definition sample_mapping :: "u16 \<Rightarrow> string \<Rightarrow> nat \<Rightarrow> nat TcpRouteMapping" where
  "sample_mapping port ip tag =
     \<lparr>rm_ExternalPort = port, rm_SniHostname = None, rm_HostIP = ip, rm_HostPort = 8080,
      rm_HostTLSPort = -1, rm_InstanceId = ''i-1'', rm_ModificationTag = tag, rm_TTL = None\<rparr>"

definition sample_updater :: "nat updater" where "sample_updater = NewUpdater NewRoutingTable 120 (20 * second)"

lemma sample_updater_simps [simp]:
  "up_routingTable sample_updater = NewRoutingTable" "\<not> up_syncing sample_updater"
  "up_cachedEvents sample_updater = []" "\<not> up_isDraining sample_updater" "up_tick sample_updater = 0"
  by (simp_all add: sample_updater_def NewUpdater_def)

theorem handle_event_correct_witness:
  "length (snd (snd (HandleEvent (sample_services [])
     \<lparr>ev_TcpRouteMapping = sample_mapping 1024 ''10.0.0.1'' 1, ev_Action = ''Upsert''\<rparr> (sample_updater, [])))) = 1"
proof -
  let ?e = "\<lparr>ev_TcpRouteMapping = sample_mapping 1024 ''10.0.0.1'' 1, ev_Action = ''Upsert''\<rparr>"
  obtain err u' w' where r: "HandleEvent (sample_services []) ?e (sample_updater, []) = (err, u', w')"
    by (metis prod_cases3)
  have "table_pairs (fst (event_table (<) 0 ?e NewRoutingTable)) \<noteq> {}"
    by (simp add: event_table_def case_prod_beta upsert_pairs)
  then show ?thesis
    using handle_event_correct [OF _ _ r refl] r by (simp add: sample_services_def)
qed

text \<open>The table of an updater and the world after a sync, without events in between.\<close>

lemma mergeRoutes_frame:
  "up_syncing (snd (mergeRoutes S ms u)) = up_syncing u"
  "up_cachedEvents (snd (mergeRoutes S ms u)) = up_cachedEvents u"
  "up_isDraining (snd (mergeRoutes S ms u)) = up_isDraining u"
  "up_defaultTTL (snd (mergeRoutes S ms u)) = up_defaultTTL u"
  "up_drainWaitDuration (snd (mergeRoutes S ms u)) = up_drainWaitDuration u"
  by (simp_all add: mergeRoutes_def case_prod_beta Let_def)

lemma syncBegin_simps [simp]:
  "up_routingTable (syncBegin u) = up_routingTable u" "up_syncing (syncBegin u)"
  "up_cachedEvents (syncBegin u) = []" "up_isDraining (syncBegin u) = up_isDraining u"
  "up_tick (syncBegin u) = up_tick u"
  by (simp_all add: syncBegin_def)

lemma Sync_fetched:
  assumes "fetchRoutes S w = (Some (Inr ms), w1)" "mergeRoutes S ms (syncBegin u) = (c, u2)"
  shows "Sync S (u, w) = (u2\<lparr>up_syncing := False, up_cachedEvents := []\<rparr>,
    if c then snd (sv_Configure S (up_routingTable u2) (up_isDraining u) w1) else w1)"
proof -
  have "up_syncing u2" "up_cachedEvents u2 = []" "up_isDraining u2 = up_isDraining u"
    using mergeRoutes_frame [of S ms "syncBegin u"] assms(2) by simp_all
  then show ?thesis using assms by (simp add: Sync_def syncFetched_def syncEnd_eq)
qed

text \<open>The effect of a sync that gets the routes.\<close>

lemma Sync_spec:
  assumes "wf_table (up_routingTable u)" "fetchRoutes S w = (Some (Inr ms), w1)"
    and "Sync S (u, w) = (u', w')"
  shows "wf_table (up_routingTable u') \<and> \<not> up_syncing u'
    \<and> fst ` table_pairs (up_routingTable u') = fst ` mapping_pair ` set ms
    \<and> table_pairs (up_routingTable u') =
        (if fst ` table_pairs (up_routingTable u) \<subseteq> fst ` mapping_pair ` set ms
         then table_pairs (up_routingTable u) else {}) \<union> mapping_pair ` set ms
    \<and> w' = (if table_pairs (up_routingTable u') = table_pairs (up_routingTable u) then w1
            else snd (sv_Configure S (up_routingTable u') (up_isDraining u) w1))"
proof -
  obtain c u2 where m: "mergeRoutes S ms (syncBegin u) = (c, u2)" by force
  have u': "u' = u2\<lparr>up_syncing := False, up_cachedEvents := []\<rparr>"
    and w': "w' = (if c then snd (sv_Configure S (up_routingTable u2) (up_isDraining u) w1) else w1)"
    using Sync_fetched [OF assms(2) m] assms(3) by simp_all
  have wf: "wf_table (up_routingTable (syncBegin u))" using assms(1) by simp
  note merged = mergeRoutes_pairs [OF wf refl, of S ms, unfolded m snd_conv fst_conv syncBegin_simps]
  have "fst ` table_pairs (up_routingTable u2) = fst ` mapping_pair ` set ms"
    unfolding merged(2) by (auto simp: image_Un)
  then show ?thesis using merged u' w' by auto
qed

text \<open>(C2) A sync that gets the routes leaves the table with exactly the routes fetched: its
  routing keys are those of the fetched mappings. The backends are the fetched ones when a route
  had disappeared from the API; otherwise those of the old table stay as well. The configurer is
  called, once and with the new table, exactly when the set of backends changed.\<close>

theorem sync_correct:
  assumes "wf_table (up_routingTable u)" "fetchRoutes S w = (Some (Inr ms), w1)"
    and "Sync S (u, w) = (u', w')"
  shows "wf_table (up_routingTable u') \<and> \<not> up_syncing u'
    \<and> fst ` table_pairs (up_routingTable u') = fst ` mapping_pair ` set ms
    \<and> table_pairs (up_routingTable u') =
        (if fst ` table_pairs (up_routingTable u) \<subseteq> fst ` mapping_pair ` set ms
         then table_pairs (up_routingTable u) else {}) \<union> mapping_pair ` set ms
    \<and> w' = (if table_pairs (up_routingTable u') = table_pairs (up_routingTable u) then w1
            else snd (sv_Configure S (up_routingTable u') (up_isDraining u) w1))"
  using assms by (rule Sync_spec)

theorem sync_correct_witness:
  "fst ` table_pairs (up_routingTable (fst (Sync (sample_services [sample_mapping 1024 ''10.0.0.1'' 1])
     (sample_updater, [])))) = {\<lparr>rk_Port = 1024, rk_SniHostname = SniHostname ''''\<rparr>}"
proof -
  let ?S = "sample_services [sample_mapping 1024 ''10.0.0.1'' 1]"
  obtain u' w' where r: "Sync ?S (sample_updater, []) = (u', w')" by force
  have "fetchRoutes ?S [] = (Some (Inr [sample_mapping 1024 ''10.0.0.1'' 1]), [])"
    by (simp add: fetchRoutes_def sample_services_def numeral_2_eq_2)
  from sync_correct [OF _ this r] show ?thesis
    unfolding r by (simp add: mapping_pair_def toRoutingTableEntry_def sample_mapping_def)
qed

lemma Sync_not_fetched:
  assumes "fetchRoutes S w = (fetched, w1)" "\<And>ms. fetched \<noteq> Some (Inr ms)"
  shows "Sync S (u, w) = (u\<lparr>up_syncing := False, up_cachedEvents := []\<rparr>, w1)"
proof -
  have "syncFetched S fetched (syncBegin u) = (False, syncBegin u)"
    using assms(2) by (auto simp: syncFetched_def split: option.splits sum.splits)
  then show ?thesis using assms(1) by (simp add: Sync_def syncEnd_eq) (simp add: syncBegin_def)
qed

text \<open>A sync that does not get the routes (no token, an error of the API, or two refusals)
  leaves the table as it is, calls no configurer and ends, so that events are applied again.\<close>

lemma sync_failed_keeps_table:
  assumes "fetchRoutes S w = (fetched, w1)" "\<And>ms. fetched \<noteq> Some (Inr ms)"
  shows "Sync S (u, w) = (u\<lparr>up_syncing := False, up_cachedEvents := []\<rparr>, w1)"
  using assms by (rule Sync_not_fetched)

definition refusing_services :: "(nat, sample_calls) services" where
  "refusing_services = (sample_services [])\<lparr>sv_TcpRouteMappings := (\<lambda>w. (Inl ''unauthorized'', w))\<rparr>"

lemma sync_failed_keeps_table_witness:
  "Sync refusing_services (sample_updater\<lparr>up_routingTable := sample_table\<rparr>, [])
     = (sample_updater\<lparr>up_routingTable := sample_table\<rparr>, [])"
proof -
  have "fetchRoutes refusing_services [] = (Some (Inl ''unauthorized''), [])"
    by (simp add: fetchRoutes_def refusing_services_def sample_services_def numeral_2_eq_2)
  from sync_failed_keeps_table [OF this, of "sample_updater\<lparr>up_routingTable := sample_table\<rparr>"]
  show ?thesis by (simp add: sample_updater_def NewUpdater_def)
qed

text \<open>Events handled one after the other, and their effect while a sync runs.\<close>

fun handleAll :: "('tag, 'w) services \<Rightarrow> 'tag TcpEvent list \<Rightarrow> 'tag updater \<times> 'w \<Rightarrow> 'tag updater \<times> 'w" where
  "handleAll S [] st = st"
| "handleAll S (e # es) st = handleAll S es (snd (HandleEvent S e st))"

lemma handleAll_syncing:
  "up_syncing u \<Longrightarrow> handleAll S es (u, w) = (u\<lparr>up_cachedEvents := up_cachedEvents u @ es\<rparr>, w)"
  by (induction es arbitrary: u) (simp_all add: HandleEvent_def)

lemma mergeRoutes_cached:
  "mergeRoutes S ms (u\<lparr>up_cachedEvents := es\<rparr>) =
     (fst (mergeRoutes S ms u), (snd (mergeRoutes S ms u))\<lparr>up_cachedEvents := es\<rparr>)"
  by (simp add: mergeRoutes_def case_prod_beta Let_def)

text \<open>(C10) No event is lost to a sync: those that arrive while it runs, before or after the
  fetched routes are merged, are applied afterwards in the order of their arrival, on top of the
  fetched routes and none twice. They call no configurer one by one; the sync calls it at most
  once, with the final table, and calls it whenever the set of backends has changed.\<close>

theorem cached_events_follow_sync:
  assumes "wf_table (up_routingTable u)" "mergeRoutes S ms (syncBegin u) = (c, merged)"
    and "handleAll S before (syncBegin u, w) = (u1, w1)" "mergeRoutes S ms u1 = (c2, u2)"
    and "handleAll S after (u2, w1) = (u3, w3)" "syncEnd S c2 (u3, w3) = (u', w')"
    and "events_table (sv_SucceededBy S) (sv_clock S) (up_tick merged) (before @ after)
           (up_routingTable merged) = (t, c', n)"
  shows "up_routingTable u' = t \<and> \<not> up_syncing u'
    \<and> w' \<in> {w, snd (sv_Configure S t (up_isDraining u) w)}
    \<and> (table_pairs t \<noteq> table_pairs (up_routingTable u) \<longrightarrow> w' = snd (sv_Configure S t (up_isDraining u) w))"
proof -
  have u1: "u1 = (syncBegin u)\<lparr>up_cachedEvents := before\<rparr>" "w1 = w"
    using assms(3) by (auto simp: handleAll_syncing)
  have u2: "c2 = c" "u2 = merged\<lparr>up_cachedEvents := before\<rparr>"
    using assms(2,4) u1 mergeRoutes_cached [of S ms before "syncBegin u"] by auto
  have merged: "up_syncing merged" "up_isDraining merged = up_isDraining u"
    using mergeRoutes_frame [of S ms "syncBegin u"] assms(2) by auto
  then have u3: "u3 = merged\<lparr>up_cachedEvents := before @ after\<rparr>" "w3 = w"
    using assms(5) u1 u2 by (auto simp: handleAll_syncing)
  then have res: "up_routingTable u' = t" "\<not> up_syncing u'"
      "w' = (if c \<or> c' then snd (sv_Configure S t (up_isDraining u) w) else w)"
    using assms(6,7) merged u2 by (auto simp: syncEnd_eq)
  have wf: "wf_table (up_routingTable (syncBegin u))" using assms(1) by simp
  note mg = mergeRoutes_pairs [OF wf refl, of S ms, unfolded assms(2) snd_conv fst_conv syncBegin_simps]
  have "table_pairs t = table_pairs (up_routingTable u)" if "\<not> c" "\<not> c'"
    using that mg(3) events_table_flag [OF mg(1), of "sv_SucceededBy S" "sv_clock S" "up_tick merged" "before @ after"]
      assms(7) by simp
  with res show ?thesis by auto
qed

theorem cached_events_follow_sync_witness:
  "\<exists>u' w'. syncEnd (sample_services []) False (handleAll (sample_services [])
       [\<lparr>ev_TcpRouteMapping = sample_mapping 1024 ''10.0.0.1'' 1, ev_Action = ''Upsert''\<rparr>]
       (syncBegin sample_updater, [])) = (u', w')
     \<and> table_pairs (up_routingTable u') \<noteq> {} \<and> length w' = 1"
proof -
  let ?S = "sample_services []"
  let ?e = "\<lparr>ev_TcpRouteMapping = sample_mapping 1024 ''10.0.0.1'' 1, ev_Action = ''Upsert''\<rparr>"
  define u1 where "u1 = (syncBegin sample_updater)\<lparr>up_cachedEvents := [?e]\<rparr>"
  have m: "mergeRoutes ?S [] u = (False, u)" if "up_routingTable u = NewRoutingTable" for u
    using that by (simp add: mergeRoutes_def)
  have h: "handleAll ?S [?e] (syncBegin sample_updater, []) = (u1, [])"
    by (simp add: handleAll_syncing u1_def HandleEvent_def)
  obtain u' w' where r: "syncEnd ?S False (u1, []) = (u', w')" by force
  obtain t c n where t: "events_table (<) (sv_clock ?S) 0 [?e] NewRoutingTable = (t, c, n)" by (metis prod_cases3)
  then have "table_pairs t \<noteq> {}" by (auto simp: event_table_def case_prod_beta upsert_pairs)
  moreover have "up_routingTable u' = t \<and> \<not> up_syncing u'
      \<and> w' \<in> {[], snd (sv_Configure ?S t False [])}
      \<and> (table_pairs t \<noteq> table_pairs NewRoutingTable \<longrightarrow> w' = snd (sv_Configure ?S t False []))"
    using cached_events_follow_sync [of sample_updater ?S "[]" False "syncBegin sample_updater" "[?e]" "[]"
        u1 "[]" False u1 "[]" u1 "[]" u' w' t c n] m h r t
    by (simp add: u1_def sample_services_def)
  ultimately show ?thesis using h r by (simp add: sample_services_def)
qed

section \<open>Tokens\<close>

text \<open>The services with a record of the token requests (whether a new token was forced) and of
  what the routing API answered.\<close>

definition spied :: "('tag, 'w) services \<Rightarrow> ('tag, 'w \<times> bool list \<times> go_error option list) services" where
  "spied S =
     \<lparr>sv_SucceededBy = sv_SucceededBy S, sv_clock = sv_clock S,
      sv_Configure = (\<lambda>t f (w, l). let (e, w') = sv_Configure S t f w in (e, w', l)),
      sv_FetchToken = (\<lambda>force (w, fs, as). let (r, w') = sv_FetchToken S force w in (r, w', fs @ [force], as)),
      sv_SetToken = (\<lambda>token (w, l). (sv_SetToken S token w, l)),
      sv_TcpRouteMappings = (\<lambda>(w, fs, as). let (r, w') = sv_TcpRouteMappings S w in
         (r, w', fs, as @ [case r of Inl e \<Rightarrow> Some e | Inr ms \<Rightarrow> None]))\<rparr>"

lemma spied_simps:
  "sv_FetchToken (spied S) force (w, fs, as) =
     (fst (sv_FetchToken S force w), snd (sv_FetchToken S force w), fs @ [force], as)"
  "sv_SetToken (spied S) token (w, l) = (sv_SetToken S token w, l)"
  "sv_TcpRouteMappings (spied S) (w, fs, as) =
     (fst (sv_TcpRouteMappings S w), snd (sv_TcpRouteMappings S w), fs,
      as @ [case fst (sv_TcpRouteMappings S w) of Inl e \<Rightarrow> Some e | Inr ms \<Rightarrow> None])"
  by (simp_all add: spied_def case_prod_beta Let_def)

text \<open>A sync asks for a token once with the cache allowed, and a second time, forcing a new
  one, exactly when the routing API answered ``unauthorized'' to the first; it never asks a third
  time. It goes on with routes only if the last answer was no error, and if it goes on without
  them the API refused twice.\<close>

lemma sync_token_requests:
  assumes "fetchRoutes (spied S) (w, [], []) = (r, w', forced, answers)"
  shows "forced = (if answers \<noteq> [] \<and> hd answers = Some ''unauthorized'' then [False, True] else [False])
    \<and> length answers \<le> 2
    \<and> (\<forall>ms. r = Some (Inr ms) \<longrightarrow> answers \<noteq> [] \<and> last answers = None)
    \<and> (\<forall>e. r = Some (Inl e) \<longrightarrow> e = ''unauthorized'' \<and> answers = [Some e, Some e])"
  using assms
  by (auto simp: fetchRoutes_def numeral_2_eq_2 spied_simps split: sum.splits prod.splits if_splits)

lemma sync_token_requests_witness:
  "fst (snd (snd (fetchRoutes (spied refusing_services) ([], [], [])))) = [False, True]"
proof -
  obtain r w' forced answers where
    r: "fetchRoutes (spied refusing_services) ([], [], []) = (r, w', forced, answers)" by (metis prod_cases4)
  moreover have "answers = [Some ''unauthorized'', Some ''unauthorized'']"
    using r by (auto simp: fetchRoutes_def numeral_2_eq_2 spied_simps refusing_services_def sample_services_def)
  ultimately show ?thesis using sync_token_requests [OF r] by simp
qed

section \<open>Pruning and the load balancer\<close>

text \<open>A sync after a prune that fetches exactly the routes left does not call the configurer.\<close>

lemma prune_then_sync:
  assumes "wf_table (up_routingTable u)" "mono (sv_clock S)"
    and "fetchRoutes S w = (Some (Inr ms), w1)"
    and "mapping_pair ` set ms = table_pairs (up_routingTable (PruneStaleRoutes S u))"
    and "Sync S (PruneStaleRoutes S u, w) = (u', w')"
  shows "table_pairs (up_routingTable u') = table_pairs (up_routingTable (PruneStaleRoutes S u)) \<and> w' = w1"
proof -
  obtain t' j where p: "PruneEntries (sv_clock S) (up_defaultTTL u) (up_tick u) (up_routingTable u) = (t', j)"
    by force
  have "wf_table t'" using PruneEntries_spec [OF assms(1,2) p] by blast
  then have "wf_table (up_routingTable (PruneStaleRoutes S u))" by (simp add: PruneStaleRoutes_def p)
  from Sync_spec [OF this assms(3,5)] show ?thesis using assms(4) by auto
qed

lemma prune_removes_expired:
  assumes "wf_table (up_routingTable u)" "mono (sv_clock S)"
    and "lookup_backend (up_routingTable u) k b = Some d" "Expired (sv_clock S (up_tick u)) (up_defaultTTL u) d"
  shows "(k, b) \<notin> table_pairs (up_routingTable (PruneStaleRoutes S u))"
proof -
  obtain t' j where p: "PruneEntries (sv_clock S) (up_defaultTTL u) (up_tick u) (up_routingTable u) = (t', j)"
    by force
  then have "lookup_backend t' k b = None"
    using PruneEntries_spec [OF assms(1,2) p] assms(3,4) by (auto simp: pruned_between_def)
  then show ?thesis by (simp add: PruneStaleRoutes_def p table_pairs_def)
qed

lemma prune_subset:
  assumes "wf_table (up_routingTable u)" "mono (sv_clock S)"
  shows "table_pairs (up_routingTable (PruneStaleRoutes S u)) \<subseteq> table_pairs (up_routingTable u)"
proof -
  obtain t' j where p: "PruneEntries (sv_clock S) (up_defaultTTL u) (up_tick u) (up_routingTable u) = (t', j)"
    by force
  then have "lookup_backend t' k b = None \<or> lookup_backend t' k b = lookup_backend (up_routingTable u) k b" for k b
    using PruneEntries_spec [OF assms p] by (auto simp: pruned_between_def)
  then show ?thesis by (auto simp: PruneStaleRoutes_def p table_pairs_def) (metis option.distinct(1))
qed

section \<open>Draining\<close>

lemma drainWait_after:
  assumes "\<not> up_syncing (fst ((others ^^ n) st))" "\<And>m. m < n \<Longrightarrow> up_syncing (fst ((others ^^ m) st))"
  shows "drainWait others st = Some ((others ^^ n) st)"
  using assms
proof (induction n arbitrary: st)
  case 0
  then show ?case by (subst drainWait.simps) (simp add: Syncing_def)
next
  case (Suc n)
  have "up_syncing (fst st)" using Suc.prems(2) [of 0] by simp
  moreover have "drainWait others (others st) = Some ((others ^^ n) (others st))"
    using Suc.prems(1) Suc.prems(2) [of "Suc m" for m]
    by (intro Suc.IH) (auto simp: funpow_swap1)
  ultimately show ?case by (subst drainWait.simps) (simp add: Syncing_def funpow_swap1)
qed

lemma drainWait_Some:
  assumes run: "drainWait others st = Some st'"
  shows "\<exists>n. st' = (others ^^ n) st \<and> \<not> up_syncing (fst st')"
proof (rule drainWait.raw_induct
    [where P = "\<lambda>others st st'. \<exists>n. st' = (others ^^ n) st \<and> \<not> up_syncing (fst st')", OF _ run], goal_cases)
  case (1 f others s s')
  show ?case
  proof (cases "up_syncing (fst s)")
    case True
    then have "f others (others s) = Some s'" using 1(2) by (simp add: Syncing_def)
    then obtain n where "s' = (others ^^ n) (others s)" "\<not> up_syncing (fst s')"
      using 1(1) by blast
    then show ?thesis by (intro exI [of _ "Suc n"]) (simp add: funpow_swap1)
  next
    case False
    then show ?thesis using 1(2) by (intro exI [of _ 0]) (simp add: Syncing_def)
  qed
qed

lemma drainWait_None_iff: "drainWait others st = None \<longleftrightarrow> (\<forall>n. up_syncing (fst ((others ^^ n) st)))"
proof
  assume "drainWait others st = None"
  then show "\<forall>n. up_syncing (fst ((others ^^ n) st))"
    using drainWait_after [of "LEAST n. \<not> up_syncing (fst ((others ^^ n) st))" others st]
    by (metis (mono_tags, lifting) LeastI not_less_Least option.distinct(1))
next
  assume "\<forall>n. up_syncing (fst ((others ^^ n) st))"
  then show "drainWait others st = None"
    using drainWait_Some [of others st] by (cases "drainWait others st") auto
qed

text \<open>(C18) \<open>Drain\<close> waits exactly until the first sleep after which no sync is running, and never
  returns if there is none. Then, if the router drains already, it does nothing; otherwise it sets
  the flag, makes one call to the configurer that asks for failing health checks, with the table
  as it is then, and returns its error at once or sleeps for the drain wait.\<close>

theorem drain_correct:
  assumes "\<And>m. m < n \<Longrightarrow> up_syncing (fst ((others ^^ m) st))"
    and "(others ^^ n) st = (u, w)" "\<not> up_syncing u"
    and "sv_Configure S (up_routingTable u) True w = (err, w1)"
  shows "Drain S others sleepFor st = Some
      (if up_isDraining u then (None, u, w)
       else case err of
         Some e \<Rightarrow> (Some e, u\<lparr>up_isDraining := True\<rparr>, w1)
       | None \<Rightarrow> (None, sleepFor (up_drainWaitDuration u) (u\<lparr>up_isDraining := True\<rparr>, w1)))
    \<and> (Drain S others sleepFor st' = None \<longleftrightarrow> (\<forall>n. up_syncing (fst ((others ^^ n) st'))))"
proof -
  have "drainWait others st = Some (u, w)" using drainWait_after [of n others st] assms(1-3) by simp
  then show ?thesis
    using assms(4) drainWait_None_iff [of others st']
    by (auto simp: Drain_def IsDraining_def Let_def split: option.splits prod.splits)
qed

theorem drain_correct_witness:
  "Drain (sample_services []) (\<lambda>(u, w). syncEnd (sample_services []) False (u, w)) (\<lambda>d st. st)
     (syncBegin sample_updater, []) = Some (None, sample_updater\<lparr>up_isDraining := True\<rparr>, [(NewRoutingTable, True)])"
proof -
  let ?others = "\<lambda>(u, w). syncEnd (sample_services []) False (u, w)"
  have "(?others ^^ 1) (syncBegin sample_updater, []) = (sample_updater, [])"
    by (simp add: syncEnd_eq) (simp add: syncBegin_def sample_updater_def NewUpdater_def)
  moreover have "up_syncing (fst ((?others ^^ m) (syncBegin sample_updater, [])))" if "m < 1" for m
    using that by simp
  ultimately show ?thesis
    using drain_correct [of 1 ?others "(syncBegin sample_updater, [])" sample_updater "[]" "sample_services []"
        None "[(NewRoutingTable, True)]" "\<lambda>d st. st"]
    by (simp add: sample_services_def)
qed

section \<open>What the updater needs of its configurer\<close>

text \<open>
  The interface \<open>RouterConfigurer\<close> of \<open>configurer/configurer.go\<close>. \<open>serves w P d\<close> says that in
  the world \<open>w\<close> the load balancer was last loaded with the backends \<open>P\<close>, with failing health
  checks if \<open>d\<close>. The one law: a call that returns no error makes it serve the backends of the table.
\<close>

text \<open>The load balancer is up to date: it serves the backends of the table.\<close>

definition current ::
  "('w \<Rightarrow> (RoutingKey \<times> BackendServerKey) set \<Rightarrow> bool \<Rightarrow> bool) \<Rightarrow> 'tag updater \<times> 'w \<Rightarrow> bool" where
  "current serves st \<longleftrightarrow> wf_table (up_routingTable (fst st)) \<and> \<not> up_syncing (fst st)
     \<and> serves (snd st) (table_pairs (up_routingTable (fst st))) (up_isDraining (fst st))"

locale router_configurer =
  fixes configure :: "'tag RoutingTable \<Rightarrow> bool \<Rightarrow> 'w \<Rightarrow> go_error option \<times> 'w"
    and serves :: "'w \<Rightarrow> (RoutingKey \<times> BackendServerKey) set \<Rightarrow> bool \<Rightarrow> bool"
  assumes configured:
    "wf_table t \<Longrightarrow> fst (configure t f w) = None \<Longrightarrow> serves (snd (configure t f w)) (table_pairs t) f"
begin

lemma HandleEvent_current:
  assumes "sv_Configure S = configure" "wf_table (up_routingTable u)" "\<not> up_syncing u"
    and "current serves (u, w) \<or> table_pairs (up_routingTable u') \<noteq> table_pairs (up_routingTable u)"
    and "HandleEvent S e (u, w) = (err, u', w')" "known_action e" "err = None"
  shows "current serves (u', w')"
proof -
  obtain t c where tc: "event_table (sv_SucceededBy S) (sv_clock S (up_tick u)) e (up_routingTable u) = (t, c)"
    by force
  have wf: "wf_table t"
    using wf_event_table [OF assms(2), of "sv_SucceededBy S" "sv_clock S (up_tick u)" e] tc by simp
  have c: "c \<longleftrightarrow> table_pairs t \<noteq> table_pairs (up_routingTable u)"
    using event_table_flag [OF assms(2), of "sv_SucceededBy S" "sv_clock S (up_tick u)" e] tc by simp
  let ?u = "u\<lparr>up_routingTable := t, up_tick := Suc (up_tick u)\<rparr>"
  have h: "HandleEvent S e (u, w) =
      (if c then (fst (configure t (up_isDraining u) w), ?u, snd (configure t (up_isDraining u) w)) else (None, ?u, w))"
    using assms(3) by (simp add: HandleEvent_def handleEvent_known [OF assms(6)] tc configureIfChanged_def
        assms(1) case_prod_beta)
  have u': "u' = ?u" using h assms(5) by (simp split: if_splits)
  show ?thesis
  proof (cases c)
    case True
    then have "fst (configure t (up_isDraining u) w) = None" "w' = snd (configure t (up_isDraining u) w)"
      using h assms(5,7) by simp_all
    then show ?thesis using configured [OF wf, of "up_isDraining u" w] wf assms(3) u' by (simp add: current_def)
  next
    case False
    then have "w' = w" "table_pairs t = table_pairs (up_routingTable u)" using h assms(5) c by simp_all
    then show ?thesis using assms(3,4) wf u' by (auto simp: current_def)
  qed
qed

lemma Sync_current:
  assumes "sv_Configure S = configure" "current serves (u, w)" "fetchRoutes S w = (r, w1)"
    and api: "\<And>P d. serves w P d \<Longrightarrow> serves w1 P d"
    and "Sync S (u, w) = (u', w')"
  shows "current serves (u', w') \<or> (\<exists>e. fst (configure (up_routingTable u') (up_isDraining u) w1) = Some e)"
proof (cases "\<exists>ms. r = Some (Inr ms)")
  case True
  then obtain ms where f: "fetchRoutes S w = (Some (Inr ms), w1)" using assms(3) by auto
  have wf: "wf_table (up_routingTable u)" using assms(2) by (simp add: current_def)
  obtain c u2 where m: "mergeRoutes S ms (syncBegin u) = (c, u2)" by force
  have d: "up_isDraining u' = up_isDraining u"
    using Sync_fetched [OF f m] assms(5) mergeRoutes_frame(3) [of S ms "syncBegin u"] m by auto
  show ?thesis
    using Sync_spec [OF wf f assms(5)] assms(1,2) d api
      configured [of "up_routingTable u'" "up_isDraining u" w1]
    by (cases "fst (configure (up_routingTable u') (up_isDraining u) w1)")
      (auto simp: current_def split: if_splits)
next
  case False
  then have "Sync S (u, w) = (u\<lparr>up_syncing := False, up_cachedEvents := []\<rparr>, w1)"
    using assms(3) by (intro Sync_not_fetched) auto
  then show ?thesis using assms(2,5) api by (auto simp: current_def)
qed

lemma Drain_current:
  assumes "sv_Configure S = configure" "wf_table (up_routingTable u)" "\<not> up_syncing u" "\<not> up_isDraining u"
    and "Drain S others (\<lambda>_ st. st) (u, w) = Some (None, u', w')"
  shows "current serves (u', w') \<and> up_isDraining u'"
proof -
  have "drainWait others (u, w) = Some (u, w)" using drainWait_after [of 0 others "(u, w)"] assms(3) by simp
  then show ?thesis
    using assms configured [of "up_routingTable u" True w]
    by (auto simp: Drain_def IsDraining_def current_def Let_def split: prod.splits option.splits)
qed

end

end
