(* ===== verification/Haproxy_Configurer.thy ===== *)
theory Haproxy_Configurer
  imports Config_Marshaller Monitor Updater
begin

text \<open>
  The configurer: \<open>configurer/haproxy/haproxy_configurer.go\<close> (write the configuration file, then
  reload HAProxy), \<open>configurer/haproxy/script_runner.go\<close> (the reload script) and
  \<open>configurer/configurer.go\<close> (the choice of the load balancer).

  The world adds the monitor and the commands run so far to the file system. A command is run by
  the parameter \<open>script\<close>: from the path, the environment (\<open>None\<close>: inherited) and the files, its
  error and the files it leaves.
\<close>

section \<open>The reload script\<close>

type_synonym files = "string \<Rightarrow> string option"

record command =
  cmd_path :: string
  cmd_env :: "string list option"
  cmd_files :: files

record router_world = os_world +
  rw_monitor :: monitor
  rw_commands :: "command list"

type_synonym script = "string \<Rightarrow> string list option \<Rightarrow> files \<Rightarrow> go_error option \<times> files"

definition cmd_CombinedOutput ::
  "script \<Rightarrow> string \<Rightarrow> string list option \<Rightarrow> router_world \<Rightarrow> go_error option \<times> router_world" where
  "cmd_CombinedOutput script path env w =
     (let (err, files') = script path env (fs_files w)
      in (err, w\<lparr>fs_files := files',
                rw_commands := rw_commands w
                  @ [\<lparr>cmd_path = path, cmd_env = env, cmd_files = fs_files w\<rparr>]\<rparr>))"

record CommandRunner = cr_scriptPath :: string

definition CreateCommandRunner :: "string \<Rightarrow> CommandRunner" where
  "CreateCommandRunner scriptPath = \<lparr>cr_scriptPath = scriptPath\<rparr>"

text \<open>Appending to the nil \<open>Env\<close> of a command replaces the inherited environment.\<close>

definition envAppend :: "string list option \<Rightarrow> string \<Rightarrow> string list option" where
  "envAppend env v = Some ((case env of None \<Rightarrow> [] | Some vs \<Rightarrow> vs) @ [v])"

definition CommandRunner_Run ::
  "script \<Rightarrow> CommandRunner \<Rightarrow> bool \<Rightarrow> router_world \<Rightarrow> go_error option \<times> router_world" where
  "CommandRunner_Run script cmd forceHealthCheckToFail w =
     (let env = (if forceHealthCheckToFail then envAppend None ''IS_DRAINING=true'' else None)
      in cmd_CombinedOutput script (cr_scriptPath cmd) env w)"

section \<open>The configurer\<close>

type_synonym script_runner = "bool \<Rightarrow> router_world \<Rightarrow> go_error option \<times> router_world"

record Configurer =
  hc_configMarshaller :: "HAProxyConfig \<Rightarrow> BackendTLSConfig \<Rightarrow> string"
  hc_baseConfigFilePath :: string
  hc_configFilePath :: string
  hc_backendTlsCfg :: BackendTLSConfig
  hc_scriptRunner :: "script_runner option"

definition ErrRouterConfigFileNotFound :: string where
  "ErrRouterConfigFileNotFound = ''Configuration file not found''"

definition ErrRouterCAFileNotFound :: string where
  "ErrRouterCAFileNotFound = ''CA file not found''"

definition notFound :: "string \<Rightarrow> string \<Rightarrow> go_error" where
  "notFound msg path = msg @ '': ['' @ path @ '']''"

definition NewHaProxyConfigurer ::
  "(HAProxyConfig \<Rightarrow> BackendTLSConfig \<Rightarrow> string) \<Rightarrow> string \<Rightarrow> string \<Rightarrow> script_runner option
   \<Rightarrow> BackendTLSConfig \<Rightarrow> router_world \<Rightarrow> (go_error + Configurer) \<times> router_world" where
  "NewHaProxyConfigurer configMarshaller baseConfigFilePath configFilePath scriptRunner backendTlsCfg w =
     (let (baseExists, w1) = FileExists baseConfigFilePath w in
      if \<not> baseExists then (Inl (notFound ErrRouterConfigFileNotFound baseConfigFilePath), w1)
      else let (cfgExists, w2) = FileExists configFilePath w1 in
      if \<not> cfgExists then (Inl (notFound ErrRouterConfigFileNotFound configFilePath), w2)
      else let ca = tls_CACertificatePath backendTlsCfg;
               (caMissing, w3) = (if ca \<noteq> '''' then let (b, v) = FileExists ca w2 in (\<not> b, v) else (False, w2)) in
      if caMissing then (Inl (notFound ErrRouterCAFileNotFound ca), w3)
      else let crt = tls_ClientCertAndKeyPath backendTlsCfg;
               (crtMissing, w4) = (if crt \<noteq> '''' then let (b, v) = FileExists crt w3 in (\<not> b, v) else (False, w3)) in
      if crtMissing then (Inl (notFound ErrRouterCAFileNotFound crt), w4)
      else (Inr \<lparr>hc_configMarshaller = configMarshaller,
                hc_baseConfigFilePath = baseConfigFilePath,
                hc_configFilePath = configFilePath,
                hc_backendTlsCfg = backendTlsCfg,
                hc_scriptRunner = scriptRunner\<rparr>, w4))"

definition createConfigBackup :: "Configurer \<Rightarrow> router_world \<Rightarrow> go_error option \<times> router_world" where
  "createConfigBackup h w =
     (case os_ReadFile (hc_configFilePath h) w of
        (Inl e, w1) \<Rightarrow> (Some e, w1)
      | (Inr cfgContent, w1) \<Rightarrow>
          (case WriteToFile cfgContent (hc_configFilePath h @ ''.bak'') w1 of
             (Some e, w2) \<Rightarrow> (Some e, w2)
           | (None, w2) \<Rightarrow> (None, w2)))"

definition writeToConfig :: "Configurer \<Rightarrow> string \<Rightarrow> router_world \<Rightarrow> go_error option \<times> router_world" where
  "writeToConfig h cfgContent w =
     (let tmpConfigFileName = hc_configFilePath h @ ''.tmp'' in
      case WriteToFile cfgContent tmpConfigFileName w of
        (Some e, w1) \<Rightarrow> (Some e, w1)
      | (None, w1) \<Rightarrow>
          (case os_Rename tmpConfigFileName (hc_configFilePath h) w1 of
             (Some e, w2) \<Rightarrow> (Some e, w2)
           | (None, w2) \<Rightarrow> (None, w2)))"

text \<open>\<open>bytes.Buffer.Write\<close> never returns an error.\<close>

definition buff_Write :: "string \<Rightarrow> string \<Rightarrow> go_error option \<times> string" where
  "buff_Write buff p = (None, buff @ p)"

definition Configure ::
  "Configurer \<Rightarrow> 'tag RoutingTable \<Rightarrow> bool \<Rightarrow> router_world \<Rightarrow> go_error option \<times> router_world" where
  "Configure h routingTable forceHealthCheckToFail w =
     (let w0 = w\<lparr>rw_monitor := StopWatching (rw_monitor w)\<rparr> in
      case createConfigBackup h w0 of
        (Some e, w1) \<Rightarrow> (Some e, w1)
      | (None, w1) \<Rightarrow>
      (case os_ReadFile (hc_baseConfigFilePath h) w1 of
        (Inl e, w2) \<Rightarrow> (Some e, w2)
      | (Inr cfgContent, w2) \<Rightarrow>
      (case buff_Write [] cfgContent of
        (Some e, _) \<Rightarrow> (Some e, w2)
      | (None, buff) \<Rightarrow>
      (let haproxyConf = fst (NewHAProxyConfig routingTable);
           marshalledConf = hc_configMarshaller h haproxyConf (hc_backendTlsCfg h) in
      case buff_Write buff marshalledConf of
        (Some e, _) \<Rightarrow> (Some e, w2)
      | (None, buff') \<Rightarrow>
      (case writeToConfig h buff' w2 of
        (Some e, w3) \<Rightarrow> (Some e, w3)
      | (None, w3) \<Rightarrow>
      (case hc_scriptRunner h of
        None \<Rightarrow> (None, w3)
      | Some run \<Rightarrow>
          (case run forceHealthCheckToFail w3 of
             (Some e, w4) \<Rightarrow> (Some e, w4)
           | (None, w4) \<Rightarrow> (None, w4\<lparr>rw_monitor := StartWatching (rw_monitor w4)\<rparr>))))))))"

section \<open>configurer.go\<close>

definition HaProxyConfigurer :: string where "HaProxyConfigurer = ''HAProxy''"

text \<open>\<open>logger.Fatal\<close> ends the program; its message and error are the left result.\<close>

definition NewConfigurer ::
  "string \<Rightarrow> string \<Rightarrow> string \<Rightarrow> script_runner option \<Rightarrow> BackendTLSConfig \<Rightarrow> router_world
   \<Rightarrow> (string \<times> go_error + Configurer) \<times> router_world" where
  "NewConfigurer tcpLoadBalancer tcpLoadBalancerBaseCfg tcpLoadBalancerCfg scriptRunner backendTlsCfg w =
     (if tcpLoadBalancer = HaProxyConfigurer then
        (case NewHaProxyConfigurer (\<lambda>conf tls. fst (Marshal conf tls)) tcpLoadBalancerBaseCfg
                tcpLoadBalancerCfg scriptRunner backendTlsCfg w of
           (Inl e, w1) \<Rightarrow> (Inl (''could not create tcp load balancer'', e), w1)
         | (Inr routerHostInfo, w1) \<Rightarrow> (Inr routerHostInfo, w1))
      else (Inl (''not-supported'', ''unsupported tcp load balancer''), w))"

section \<open>The file steps\<close>

abbreviation bak_path :: "Configurer \<Rightarrow> string" where "bak_path h \<equiv> hc_configFilePath h @ ''.bak''"

abbreviation tmp_path :: "Configurer \<Rightarrow> string" where "tmp_path h \<equiv> hc_configFilePath h @ ''.tmp''"

lemma router_more:
  "os_world.more w = os_world.more v \<Longrightarrow> rw_monitor w = rw_monitor v \<and> rw_commands w = rw_commands v"
  for w v :: router_world
  by (cases w; cases v) simp

lemma backup_more: "os_world.more (snd (createConfigBackup h w)) = os_world.more w"
  by (auto simp: createConfigBackup_def WriteToFile_frame split: prod.splits sum.splits option.splits)
    (metis ReadFile_frame(2) WriteToFile_frame(2) snd_conv)+

lemma backup_frame: "p \<noteq> bak_path h \<Longrightarrow> fs_files (snd (createConfigBackup h w)) p = fs_files w p"
  by (auto simp: createConfigBackup_def split: prod.splits sum.splits option.splits)
    (metis ReadFile_frame(1) WriteToFile_frame(1) snd_conv)+

lemma backup_ok:
  assumes "fst (createConfigBackup h w) = None"
  shows "fs_files w (hc_configFilePath h) \<noteq> None"
    and "fs_files (snd (createConfigBackup h w)) = (fs_files w)(bak_path h := fs_files w (hc_configFilePath h))"
proof -
  obtain c w1 where r: "os_ReadFile (hc_configFilePath h) w = (Inr c, w1)"
    using assms by (cases "os_ReadFile (hc_configFilePath h) w") (auto simp: createConfigBackup_def split: sum.splits)
  then have c: "fs_files w (hc_configFilePath h) = Some c" by (metis ReadFile_Inr fst_conv)
  then show "fs_files w (hc_configFilePath h) \<noteq> None" by simp
  have b: "createConfigBackup h w = WriteToFile c (bak_path h) w1"
    by (auto simp: createConfigBackup_def r split: prod.splits option.splits)
  then have "fs_files (snd (createConfigBackup h w)) (bak_path h) = Some c"
    using assms WriteToFile_ok by simp
  then show "fs_files (snd (createConfigBackup h w)) = (fs_files w)(bak_path h := fs_files w (hc_configFilePath h))"
    using backup_frame [of _ h w] c by auto
qed

lemma write_more: "os_world.more (snd (writeToConfig h c w)) = os_world.more w"
  by (auto simp: writeToConfig_def Let_def split: prod.splits option.splits)
    (metis Rename_frame(2) WriteToFile_frame(2) snd_conv)+

lemma write_err:
  "fst (writeToConfig h c w) \<noteq> None \<Longrightarrow> p \<noteq> tmp_path h \<Longrightarrow> fs_files (snd (writeToConfig h c w)) p = fs_files w p"
  by (auto simp: writeToConfig_def Let_def split: prod.splits option.splits)
    (metis Rename_err WriteToFile_frame(1) fst_conv snd_conv option.distinct(1))+

lemma write_ok:
  assumes "fst (writeToConfig h c w) = None"
  shows "fs_files (snd (writeToConfig h c w)) = (fs_files w)(tmp_path h := None, hc_configFilePath h := Some c)"
proof -
  obtain w1 where w1: "WriteToFile c (tmp_path h) w = (None, w1)"
    using assms by (cases "WriteToFile c (tmp_path h) w") (auto simp: writeToConfig_def Let_def split: option.splits)
  then have t: "fs_files w1 (tmp_path h) = Some c" by (metis WriteToFile_ok fst_conv snd_conv)
  have o: "p \<noteq> tmp_path h \<Longrightarrow> fs_files w1 p = fs_files w p" for p using WriteToFile_frame(1) w1 by (metis snd_conv)
  have e: "writeToConfig h c w = os_Rename (tmp_path h) (hc_configFilePath h) w1"
    by (auto simp: writeToConfig_def Let_def w1 split: prod.splits option.splits)
  have d: "tmp_path h \<noteq> hc_configFilePath h" by simp
  show ?thesis
    using assms Rename_ok [OF _ d, of w1] Rename_frame(1) [of _ "tmp_path h" "hc_configFilePath h" w1] t o
    unfolding e by (auto simp: fun_eq_iff)
qed

section \<open>Configure\<close>

text \<open>The configuration a call writes: the base file, read after the backup was made, followed by
  the marshalled table; and the files of a call that got that far.\<close>

definition new_config :: "Configurer \<Rightarrow> 'tag RoutingTable \<Rightarrow> files \<Rightarrow> string option" where
  "new_config h t files =
     map_option (\<lambda>base. base @ hc_configMarshaller h (fst (NewHAProxyConfig t)) (hc_backendTlsCfg h))
       ((files(bak_path h := files (hc_configFilePath h))) (hc_baseConfigFilePath h))"

definition files_written :: "Configurer \<Rightarrow> 'tag RoutingTable \<Rightarrow> files \<Rightarrow> files" where
  "files_written h t files = files(bak_path h := files (hc_configFilePath h), tmp_path h := None,
     hc_configFilePath h := new_config h t files)"

definition reload :: "Configurer \<Rightarrow> bool \<Rightarrow> router_world \<Rightarrow> go_error option \<times> router_world" where
  "reload h force w =
     (case hc_scriptRunner h of
        None \<Rightarrow> (None, w)
      | Some run \<Rightarrow> (case run force w of
          (Some e, w1) \<Rightarrow> (Some e, w1)
        | (None, w1) \<Rightarrow> (None, w1\<lparr>rw_monitor := StartWatching (rw_monitor w1)\<rparr>)))"

text \<open>The steps of a call up to the reload.\<close>

lemma Configure_split:
  "Configure h t f w =
     (let w0 = w\<lparr>rw_monitor := StopWatching (rw_monitor w)\<rparr>; (b, w1) = createConfigBackup h w0;
          (r, w2) = os_ReadFile (hc_baseConfigFilePath h) w1 in
      case (b, r) of
        (Some e, _) \<Rightarrow> (Some e, w1)
      | (None, Inl e) \<Rightarrow> (Some e, w2)
      | (None, Inr c) \<Rightarrow>
          (case writeToConfig h (c @ hc_configMarshaller h (fst (NewHAProxyConfig t)) (hc_backendTlsCfg h)) w2 of
             (Some e, w3) \<Rightarrow> (Some e, w3)
           | (None, w3) \<Rightarrow> reload h f w3))"
  by (auto simp: Configure_def reload_def buff_Write_def Let_def split: prod.splits option.splits sum.splits)

lemma Configure_cases:
  obtains (failed) e w1 where "Configure h t f w = (Some e, w1)"
      "(fs_files w1)(bak_path h := None, tmp_path h := None) = (fs_files w)(bak_path h := None, tmp_path h := None)"
      "rw_monitor w1 = StopWatching (rw_monitor w)" "rw_commands w1 = rw_commands w"
  | (written) w1 where "Configure h t f w = reload h f w1"
      "fs_files w1 = files_written h t (fs_files w)" "new_config h t (fs_files w) \<noteq> None"
      "rw_monitor w1 = StopWatching (rw_monitor w)" "rw_commands w1 = rw_commands w"
proof -
  let ?w0 = "w\<lparr>rw_monitor := StopWatching (rw_monitor w)\<rparr>"
  obtain b w1 where b: "createConfigBackup h ?w0 = (b, w1)" by force
  obtain r w2 where r: "os_ReadFile (hc_baseConfigFilePath h) w1 = (r, w2)" by force
  have m1: "os_world.more w1 = os_world.more ?w0" using backup_more [of h ?w0] b by simp
  have m2: "os_world.more w2 = os_world.more ?w0" using ReadFile_frame(2) [of "hc_baseConfigFilePath h" w1] r m1 by simp
  have f1: "p \<noteq> bak_path h \<Longrightarrow> fs_files w1 p = fs_files w p" for p using backup_frame [of p h ?w0] b by simp
  have f2: "fs_files w2 = fs_files w1" using ReadFile_frame(1) [of "hc_baseConfigFilePath h" w1] r by simp
  consider e where "b = Some e" | e where "b = None" "r = Inl e" | c where "b = None" "r = Inr c"
    by (cases b; cases r) auto
  then show thesis
  proof cases
    case 1
    then show thesis using m1 f1 b by (intro failed [of e w1]) (auto simp: Configure_split dest!: router_more)
  next
    case 2
    then show thesis using m2 f1 f2 b r by (intro failed [of e w2]) (auto simp: Configure_split dest!: router_more)
  next
    case 3
    define conf where "conf = c @ hc_configMarshaller h (fst (NewHAProxyConfig t)) (hc_backendTlsCfg h)"
    obtain e3 w3 where w3: "writeToConfig h conf w2 = (e3, w3)" by force
    have m3: "os_world.more w3 = os_world.more ?w0" using write_more [of h conf w2] w3 m2 by simp
    have all: "Configure h t f w = (case e3 of Some e \<Rightarrow> (Some e, w3) | None \<Rightarrow> reload h f w3)"
      using 3 b r w3 by (simp add: Configure_split conf_def split: option.splits)
    show thesis
    proof (cases e3)
      case (Some e)
      then have "p \<noteq> tmp_path h \<Longrightarrow> fs_files w3 p = fs_files w2 p" for p using write_err [of h conf w2 p] w3 by simp
      then show thesis using Some m3 f1 f2 all
        by (intro failed [of e w3]) (auto dest!: router_more simp: fun_eq_iff)
    next
      case None
      have bk: "fs_files w1 = (fs_files w)(bak_path h := fs_files w (hc_configFilePath h))"
        using backup_ok(2) [of h ?w0] b 3 by simp
      have "fs_files w1 (hc_baseConfigFilePath h) = Some c" using ReadFile_Inr r 3 by (metis fst_conv)
      then have "new_config h t (fs_files w) = Some conf" by (simp add: new_config_def bk conf_def)
      moreover have "fs_files w3 = (fs_files w1)(tmp_path h := None, hc_configFilePath h := Some conf)"
        using write_ok [of h conf w2] w3 None f2 by simp
      ultimately show thesis using None m3 all bk
        by (intro written [of w3]) (auto dest!: router_more simp: files_written_def)
    qed
  qed
qed

text \<open>(C6) \<open>Configure\<close> replaces the configuration file as a whole or not at all, whatever call
  to the file system fails and wherever a write breaks off. Either it returns an error, has run
  no command and has changed no file but the backup and the temporary one; or the configuration
  file is the base file followed by the marshalled table, the backup is the old configuration,
  the temporary file is gone, no other file has changed, and what is left to do is the reload.
  Until the reload succeeds the monitor does not watch.\<close>

theorem configure_atomic:
  "(\<exists>e w1. Configure h t f w = (Some e, w1)
      \<and> (fs_files w1)(bak_path h := None, tmp_path h := None)
          = (fs_files w)(bak_path h := None, tmp_path h := None)
      \<and> rw_monitor w1 = StopWatching (rw_monitor w) \<and> rw_commands w1 = rw_commands w)
   \<or> (\<exists>w1 base. Configure h t f w = reload h f w1
      \<and> ((fs_files w)(bak_path h := fs_files w (hc_configFilePath h))) (hc_baseConfigFilePath h) = Some base
      \<and> fs_files w1 = (fs_files w)(bak_path h := fs_files w (hc_configFilePath h), tmp_path h := None,
           hc_configFilePath h := Some (base
             @ hc_configMarshaller h (fst (NewHAProxyConfig t)) (hc_backendTlsCfg h)))
      \<and> rw_monitor w1 = StopWatching (rw_monitor w) \<and> rw_commands w1 = rw_commands w)"
proof (cases rule: Configure_cases [of h t f w])
  case failed
  then show ?thesis by blast
next
  case (written w1)
  then obtain base where
    "((fs_files w)(bak_path h := fs_files w (hc_configFilePath h))) (hc_baseConfigFilePath h) = Some base"
    by (auto simp: new_config_def)
  with written show ?thesis by (auto simp: files_written_def new_config_def)
qed

lemma Configure_no_faults:
  assumes "fs_faults w = []" "fs_files w (hc_configFilePath h) = Some old"
    "fs_files w (hc_baseConfigFilePath h) = Some base" "hc_baseConfigFilePath h \<noteq> bak_path h"
  shows "Configure h t f w = reload h f (w\<lparr>rw_monitor := StopWatching (rw_monitor w),
    fs_files := files_written h t (fs_files w)\<rparr>)"
proof -
  have "createConfigBackup h v = (None, v\<lparr>fs_files := (fs_files w)(bak_path h \<mapsto> old)\<rparr>)"
    if "v = w\<lparr>rw_monitor := StopWatching (rw_monitor w)\<rparr>" for v
    using assms that by (simp add: createConfigBackup_def)
  then show ?thesis
    using assms
    by (simp add: Configure_split writeToConfig_def files_written_def new_config_def Let_def fun_upd_def
        cong: if_cong)
qed

lemma reload_command:
  assumes "hc_scriptRunner h = Some (CommandRunner_Run script (CreateCommandRunner path))"
    "env = (if f then Some [''IS_DRAINING=true''] else None)" "script path env (fs_files w) = (err, files')"
  shows "reload h f w =
    (let w1 = w\<lparr>fs_files := files', rw_commands := rw_commands w
        @ [\<lparr>cmd_path = path, cmd_env = env, cmd_files = fs_files w\<rparr>]\<rparr>
     in case err of Some e \<Rightarrow> (Some e, w1)
        | None \<Rightarrow> (None, w1\<lparr>rw_monitor := StartWatching (rw_monitor w)\<rparr>))"
  using assms
  by (simp add: reload_def CommandRunner_Run_def CreateCommandRunner_def cmd_CombinedOutput_def
      envAppend_def Let_def split: option.splits if_splits)

text \<open>(C7) Without faults a call always gets through: when both files exist and the reload script
  ends well, \<open>Configure\<close> returns no error, the configuration is the base file followed by the
  marshalled table, exactly one command has run, with \<open>IS_DRAINING=true\<close> as its whole
  environment if the health check is to fail and an inherited one if not, it saw the new
  configuration, and the monitor watches again.\<close>

theorem configure_succeeds:
  assumes "fs_faults w = []" "fs_files w (hc_configFilePath h) = Some old"
    and "fs_files w (hc_baseConfigFilePath h) = Some base" "hc_baseConfigFilePath h \<noteq> bak_path h"
    and "hc_scriptRunner h = Some (CommandRunner_Run script (CreateCommandRunner path))"
    and "script path env (files_written h t (fs_files w)) = (None, files')"
    and "env = (if f then Some [''IS_DRAINING=true''] else None)"
  shows "fst (Configure h t f w) = None
    \<and> fs_files (snd (Configure h t f w)) = files'
    \<and> rw_commands (snd (Configure h t f w)) = rw_commands w
        @ [\<lparr>cmd_path = path, cmd_env = env, cmd_files = files_written h t (fs_files w)\<rparr>]
    \<and> files_written h t (fs_files w) (hc_configFilePath h) =
        Some (base @ hc_configMarshaller h (fst (NewHAProxyConfig t)) (hc_backendTlsCfg h))
    \<and> rw_monitor (snd (Configure h t f w)) = StartWatching (StopWatching (rw_monitor w))"
proof -
  let ?w = "w\<lparr>rw_monitor := StopWatching (rw_monitor w), fs_files := files_written h t (fs_files w)\<rparr>"
  have "Configure h t f w = (None, ?w\<lparr>fs_files := files',
      rw_commands := rw_commands w @ [\<lparr>cmd_path = path, cmd_env = env, cmd_files = fs_files ?w\<rparr>],
      rw_monitor := StartWatching (rw_monitor ?w)\<rparr>)"
    using Configure_no_faults [OF assms(1-4), of t f] reload_command [OF assms(5,7), of ?w None files'] assms(6)
    by simp
  moreover have "files_written h t (fs_files w) (hc_configFilePath h) =
      Some (base @ hc_configMarshaller h (fst (NewHAProxyConfig t)) (hc_backendTlsCfg h))"
    using assms by (simp add: files_written_def new_config_def)
  ultimately show ?thesis by simp
qed

definition sample_configurer :: Configurer where
  "sample_configurer =
     \<lparr>hc_configMarshaller = (\<lambda>conf tls. fst (Marshal conf tls)),
      hc_baseConfigFilePath = ''base'', hc_configFilePath = ''cfg'', hc_backendTlsCfg = no_tls,
      hc_scriptRunner = Some (CommandRunner_Run (\<lambda>path env files. (None, files)) (CreateCommandRunner ''reload''))\<rparr>"

definition sample_world :: router_world where
  "sample_world = \<lparr>fs_files = [''base'' \<mapsto> ''global'', ''cfg'' \<mapsto> ''old''], fs_faults = [],
     rw_monitor = Monitor_New ''pid'', rw_commands = []\<rparr>"

theorem configure_succeeds_witness:
  "fst (Configure sample_configurer sample_table True sample_world) = None
   \<and> map cmd_env (rw_commands (snd (Configure sample_configurer sample_table True sample_world)))
       = [Some [''IS_DRAINING=true'']]
   \<and> fs_files (snd (Configure sample_configurer sample_table True sample_world)) ''cfg.bak'' = Some ''old''"
proof -
  let ?files = "files_written sample_configurer sample_table (fs_files sample_world)"
  note ok = configure_succeeds [of sample_world sample_configurer "''old''" "''global''"
      "\<lambda>path env files. (None, files)" "''reload''" "Some [''IS_DRAINING=true'']" sample_table ?files True]
  have "?files ''cfg.bak'' = Some ''old''"
    by (simp add: files_written_def sample_configurer_def sample_world_def)
  then show ?thesis using ok by (simp add: sample_configurer_def sample_world_def)
qed

text \<open>(C19) With the reload script as the runner, whatever fails: the monitor watches after the
  call exactly when the call returned no error, so a failed update leaves the router unmonitored;
  and the script runs at most once, only when the complete new configuration is in place, and if
  it does not run the call returns an error.\<close>

theorem reload_on_complete_config:
  assumes "hc_scriptRunner h = Some (CommandRunner_Run script (CreateCommandRunner path))"
  shows "(stopWatching (rw_monitor (snd (Configure h t f w))) = 0 \<longleftrightarrow> fst (Configure h t f w) = None)
    \<and> (rw_commands (snd (Configure h t f w)) = rw_commands w \<and> fst (Configure h t f w) \<noteq> None
       \<or> rw_commands (snd (Configure h t f w)) = rw_commands w
           @ [\<lparr>cmd_path = path, cmd_env = (if f then Some [''IS_DRAINING=true''] else None),
              cmd_files = files_written h t (fs_files w)\<rparr>]
         \<and> files_written h t (fs_files w) (hc_configFilePath h) \<noteq> None
         \<and> fst (Configure h t f w) = fst (script path (if f then Some [''IS_DRAINING=true''] else None)
             (files_written h t (fs_files w))))"
proof (cases rule: Configure_cases [of h t f w])
  case failed
  then show ?thesis by (simp add: StopWatching_def)
next
  case (written w1)
  let ?env = "if f then Some [''IS_DRAINING=true''] else None"
  obtain err files' where "script path ?env (fs_files w1) = (err, files')" by force
  then show ?thesis
    using written reload_command [OF assms refl, of f w1 err files']
    by (cases err) (simp_all add: StopWatching_def StartWatching_def Let_def files_written_def)
qed

theorem reload_on_complete_config_witness:
  "stopWatching (rw_monitor (snd (Configure sample_configurer sample_table False
     (sample_world\<lparr>fs_faults := [Fine, Fails ''EROFS'']\<rparr>)))) = 1"
proof -
  let ?w = "sample_world\<lparr>fs_faults := [Fine, Fails ''EROFS'']\<rparr>"
  have "fst (Configure sample_configurer sample_table False ?w) = Some ''EROFS''
      \<and> rw_monitor (snd (Configure sample_configurer sample_table False ?w)) = StopWatching (Monitor_New ''pid'')"
    by (simp add: Configure_split createConfigBackup_def os_ReadFile_def takeFault_def WriteToFile_def
        os_Create_def sample_world_def sample_configurer_def)
  then show ?thesis
    using reload_on_complete_config [of sample_configurer "\<lambda>path env files. (None, files)" "''reload''"
        sample_table False ?w]
    by (simp add: sample_configurer_def StopWatching_def)
qed

text \<open>The program gets a configurer exactly when the load balancer is HAProxy and every file
  it names exists, and the configurer then carries the paths, the runner and the TLS settings
  unchanged; in every other case starting it is a fatal error.\<close>

lemma new_configurer_iff:
  assumes "fs_faults w = []"
  shows "fst (NewConfigurer lb base cfg runner tls w) = Inr h \<longleftrightarrow>
    lb = ''HAProxy'' \<and> fs_files w base \<noteq> None \<and> fs_files w cfg \<noteq> None
    \<and> (tls_CACertificatePath tls = '''' \<or> fs_files w (tls_CACertificatePath tls) \<noteq> None)
    \<and> (tls_ClientCertAndKeyPath tls = '''' \<or> fs_files w (tls_ClientCertAndKeyPath tls) \<noteq> None)
    \<and> h = \<lparr>hc_configMarshaller = (\<lambda>conf tls. fst (Marshal conf tls)), hc_baseConfigFilePath = base,
           hc_configFilePath = cfg, hc_backendTlsCfg = tls, hc_scriptRunner = runner\<rparr>"
proof (cases "lb = ''HAProxy''")
  case True
  consider "fs_files w base = None" | "fs_files w base \<noteq> None" "fs_files w cfg = None"
    | "fs_files w base \<noteq> None" "fs_files w cfg \<noteq> None" by blast
  then show ?thesis
    using assms True
    by cases (auto simp: NewConfigurer_def NewHaProxyConfigurer_def HaProxyConfigurer_def Let_def)
qed (simp add: NewConfigurer_def HaProxyConfigurer_def)

lemma new_configurer_iff_witness:
  "fst (NewConfigurer ''HAProxy'' ''base'' ''cfg'' (hc_scriptRunner sample_configurer) no_tls sample_world)
     = Inr sample_configurer"
  using new_configurer_iff [of sample_world "''HAProxy''" "''base''" "''cfg''"
      "hc_scriptRunner sample_configurer" no_tls sample_configurer]
  by (simp add: sample_world_def sample_configurer_def no_tls_def)

section \<open>What the load balancer serves\<close>

text \<open>A configuration has exactly the valid routes among a set of backends, each with exactly its
  valid backends as servers, each once, in the order of address and port.\<close>

definition conf_of :: "HAProxyConfig \<Rightarrow> (RoutingKey \<times> BackendServerKey) set \<Rightarrow> bool" where
  "conf_of conf P \<longleftrightarrow> wf_conf conf \<and>
     (\<forall>p h. let rk = \<lparr>rk_Port = p, rk_SniHostname = h\<rparr>;
                servers = (if valid_route rk then {b. (rk, b) \<in> P \<and> valid_server b} else {})
            in case conf_lookup conf p h of
                 None \<Rightarrow> servers = {}
               | Some ss \<Rightarrow> servers \<noteq> {} \<and> set ss = servers \<and> distinct ss
                   \<and> sorted (map (\<lambda>b. (bk_Address b, bk_Port b)) ss))"

lemma conf_of_table:
  assumes "wf_table t"
  shows "conf_of (fst (NewHAProxyConfig t)) (table_pairs t)"
proof -
  have pairs: "{b. (rk, b) \<in> table_pairs t \<and> valid_server b} = set (kept_servers t rk)" for rk
    by (auto simp: set_kept_servers table_pairs_def)
  show ?thesis
    by (simp add: conf_of_def wf_NewHAProxyConfig NewHAProxyConfig_lookup Let_def pairs kept_route_def
        sliceStable_serverLess distinct_kept_servers [OF assms])
qed

text \<open>The last command run, with the environment for draining or not, saw as the configuration file
  the base file, as it was at that moment, followed by the configuration of the backends \<open>P\<close> and
  nothing else.\<close>

definition reloaded ::
  "Configurer \<Rightarrow> router_world \<Rightarrow> (RoutingKey \<times> BackendServerKey) set \<Rightarrow> bool \<Rightarrow> bool" where
  "reloaded h w P d \<longleftrightarrow> rw_commands w \<noteq> []
     \<and> cmd_env (last (rw_commands w)) = (if d then Some [''IS_DRAINING=true''] else None)
     \<and> (\<exists>base conf. cmd_files (last (rw_commands w)) (hc_baseConfigFilePath h) = Some base \<and> conf_of conf P
          \<and> cmd_files (last (rw_commands w)) (hc_configFilePath h) =
              Some (base @ fst (Marshal conf (hc_backendTlsCfg h))))"

text \<open>The configurer \<open>NewHaProxyConfigurer\<close> makes, with a base file that is not one of the files it
  writes.\<close>

definition haproxy_setup :: "Configurer \<Rightarrow> bool" where
  "haproxy_setup h \<longleftrightarrow> hc_configMarshaller h = (\<lambda>conf tls. fst (Marshal conf tls))
     \<and> hc_baseConfigFilePath h \<notin> {hc_configFilePath h, bak_path h, tmp_path h}"

definition with_script :: "script \<Rightarrow> string \<Rightarrow> Configurer \<Rightarrow> Configurer" where
  "with_script script path h = h\<lparr>hc_scriptRunner := Some (CommandRunner_Run script (CreateCommandRunner path))\<rparr>"

lemma with_script_simps [simp]:
  "hc_configMarshaller (with_script script path h) = hc_configMarshaller h"
  "hc_configFilePath (with_script script path h) = hc_configFilePath h"
  "hc_baseConfigFilePath (with_script script path h) = hc_baseConfigFilePath h"
  "hc_backendTlsCfg (with_script script path h) = hc_backendTlsCfg h"
  "hc_scriptRunner (with_script script path h) = Some (CommandRunner_Run script (CreateCommandRunner path))"
  by (simp_all add: with_script_def)

lemma Configure_reloads:
  assumes "haproxy_setup h" and "wf_table t" and "fst (Configure (with_script script path h) t f w) = None"
  shows "reloaded h (snd (Configure (with_script script path h) t f w)) (table_pairs t) f"
proof (cases rule: Configure_cases [of "with_script script path h" t f w])
  case failed
  then show ?thesis using assms by simp
next
  case (written w1)
  let ?h = "with_script script path h" and ?env = "if f then Some [''IS_DRAINING=true''] else None"
  obtain err files' where s: "script path ?env (fs_files w1) = (err, files')" by force
  obtain base where base: "fs_files w (hc_baseConfigFilePath h) = Some base"
    and nc: "new_config ?h t (fs_files w) = Some (base @ fst (Marshal (fst (NewHAProxyConfig t)) (hc_backendTlsCfg h)))"
    using written(3) assms(1) by (auto simp: new_config_def haproxy_setup_def)
  have "rw_commands (snd (Configure ?h t f w)) =
      rw_commands w @ [\<lparr>cmd_path = path, cmd_env = ?env, cmd_files = fs_files w1\<rparr>]"
    using written(1,5) reload_command [OF with_script_simps(5) [of script path h] refl s] by (simp add: Let_def split: option.splits)
  moreover have "fs_files w1 (hc_configFilePath h) =
      Some (base @ fst (Marshal (fst (NewHAProxyConfig t)) (hc_backendTlsCfg h)))"
      "fs_files w1 (hc_baseConfigFilePath h) = Some base"
    using written(2) nc base assms(1) by (auto simp: files_written_def haproxy_setup_def)
  ultimately show ?thesis using conf_of_table [OF assms(2)] by (auto simp: reloaded_def)
qed

interpretation hap: router_configurer "Configure (with_script script path h)"
  "\<lambda>w P d. haproxy_setup h \<longrightarrow> reloaded h w P d" for script path h
  by unfold_locales (blast intro: Configure_reloads)

end
