(* ===== verification/Port_Checker.thy ===== *)
theory Port_Checker
  imports Go_Text
begin

text \<open>
  The check of \<open>router_group_port_checker/router_group_port_checker.go\<close> that no router group
  reserves a port of a system component. \<open>Parse\<close> of the reservable ports and \<open>Endpoints\<close> of a
  range belong to the routing API package and are the parameters \<open>parse\<close> and \<open>endpoints\<close>; the token
  fetcher and the API client are functions on a world.
\<close>

section \<open>The checker\<close>

record 'ports RouterGroup =
  rg_Name :: string
  rg_ReservablePorts :: 'ports

record ('ports, 'w) port_services =
  pc_FetchToken :: "bool \<Rightarrow> 'w \<Rightarrow> (go_error + string) \<times> 'w"
  pc_SetToken :: "string \<Rightarrow> 'w \<Rightarrow> 'w"
  pc_RouterGroups :: "'w \<Rightarrow> (go_error + 'ports RouterGroup list) \<times> 'w"

definition conflictMessage :: "string \<Rightarrow> string \<Rightarrow> string" where
  "conflictMessage name formattedPorts =
     ''The reserved ports for router group '' @ [CHR 39] @ name @ [CHR 39]
     @ '' contains the following reserved system component port(s): '' @ [CHR 39] @ formattedPorts
     @ [CHR 39] @ ''. Please update your router group accordingly.''"

fun overlapLoop :: "u16 \<Rightarrow> u16 \<Rightarrow> u16 list \<Rightarrow> string list" where
  "overlapLoop start stop [] = []"
| "overlapLoop start stop (port # rest) =
     (if port \<ge> start \<and> port \<le> stop then showU16 port # overlapLoop start stop rest
      else overlapLoop start stop rest)"

fun rangesLoop ::
  "('range \<Rightarrow> u16 \<times> u16) \<Rightarrow> string \<Rightarrow> u16 list \<Rightarrow> 'range list \<Rightarrow> bool \<times> string list \<Rightarrow> bool \<times> string list" where
  "rangesLoop endpoints name systemComponentPorts [] acc = acc"
| "rangesLoop endpoints name systemComponentPorts (r # rest) acc =
     (let (shouldExit, errs) = acc;
          (start, stop) = endpoints r;
          overlappingPorts = overlapLoop start stop systemComponentPorts;
          acc' = (if length overlappingPorts > 0
                  then (True, errs @ [conflictMessage name (joinWith '', '' overlappingPorts)])
                  else (shouldExit, errs))
      in rangesLoop endpoints name systemComponentPorts rest acc')"

fun groupsLoop ::
  "('ports \<Rightarrow> 'range list \<times> go_error option) \<Rightarrow> ('range \<Rightarrow> u16 \<times> u16) \<Rightarrow> u16 list \<Rightarrow> 'ports RouterGroup list
   \<Rightarrow> bool \<times> string list \<Rightarrow> bool \<times> string list" where
  "groupsLoop parse endpoints systemComponentPorts [] acc = acc"
| "groupsLoop parse endpoints systemComponentPorts (grp # rest) acc =
     (let (ranges, _) = parse (rg_ReservablePorts grp)
      in groupsLoop parse endpoints systemComponentPorts rest
           (rangesLoop endpoints (rg_Name grp) systemComponentPorts ranges acc))"

definition validateRouterGroups ::
  "('ports \<Rightarrow> 'range list \<times> go_error option) \<Rightarrow> ('range \<Rightarrow> u16 \<times> u16) \<Rightarrow> 'ports RouterGroup list \<Rightarrow> u16 list
   \<Rightarrow> bool \<times> string list" where
  "validateRouterGroups parse endpoints routerGroups systemComponentPorts =
     groupsLoop parse endpoints systemComponentPorts routerGroups (False, [])"

text \<open>The two loops of \<open>getRouterGroups\<close>, with the rounds left and \<open>err\<close> so far.\<close>

fun tokenLoop ::
  "('ports, 'w) port_services \<Rightarrow> nat \<Rightarrow> go_error option \<Rightarrow> 'w \<Rightarrow> go_error option \<times> 'w" where
  "tokenLoop S 0 err w = (err, w)"
| "tokenLoop S (Suc n) err w =
     (case pc_FetchToken S False w of
        (Inl e, w1) \<Rightarrow> tokenLoop S n (Some e) w1
      | (Inr token, w1) \<Rightarrow> (None, pc_SetToken S token w1))"

fun routerGroupsLoop ::
  "('ports, 'w) port_services \<Rightarrow> nat \<Rightarrow> go_error \<Rightarrow> 'w \<Rightarrow> (go_error + 'ports RouterGroup list) \<times> 'w" where
  "routerGroupsLoop S 0 err w = (Inl err, w)"
| "routerGroupsLoop S (Suc n) err w =
     (case pc_RouterGroups S w of
        (Inr routerGroups, w1) \<Rightarrow> (Inr routerGroups, w1)
      | (Inl e, w1) \<Rightarrow> routerGroupsLoop S n e w1)"

definition getRouterGroups ::
  "('ports, 'w) port_services \<Rightarrow> 'w \<Rightarrow> (go_error + 'ports RouterGroup list) \<times> 'w" where
  "getRouterGroups S w =
     (let numRetries = 3 in
      case tokenLoop S numRetries None w of
        (Some err, w1) \<Rightarrow> (Inl (''error-fetching-uaa-token: '' @ [CHR 34] @ err @ [CHR 34]), w1)
      | (None, w1) \<Rightarrow>
          (case routerGroupsLoop S numRetries [] w1 of
             (Inr groups, w2) \<Rightarrow> (Inr groups, w2)
           | (Inl err, w2) \<Rightarrow>
               (Inl (''error-fetching-routing-groups: '' @ [CHR 34] @ err @ [CHR 34]), w2)))"

definition Check ::
  "('ports \<Rightarrow> 'range list \<times> go_error option) \<Rightarrow> ('range \<Rightarrow> u16 \<times> u16) \<Rightarrow> ('ports, 'w) port_services
   \<Rightarrow> u16 list \<Rightarrow> 'w \<Rightarrow> (bool \<times> go_error option) \<times> 'w" where
  "Check parse endpoints S systemComponentPorts w =
     (case getRouterGroups S w of
        (Inl err, w1) \<Rightarrow> ((False, Some err), w1)
      | (Inr routerGroups, w1) \<Rightarrow>
          (let (shouldExit, portErrors) = validateRouterGroups parse endpoints routerGroups systemComponentPorts
           in if length portErrors = 0 then ((False, None), w1)
              else ((shouldExit, Some (joinWith [CHR 10] portErrors)), w1)))"

section \<open>Which ports conflict\<close>

definition in_range :: "('range \<Rightarrow> u16 \<times> u16) \<Rightarrow> 'range \<Rightarrow> u16 \<Rightarrow> bool" where
  "in_range endpoints r p \<longleftrightarrow> fst (endpoints r) \<le> p \<and> p \<le> snd (endpoints r)"

definition group_ranges ::
  "('ports \<Rightarrow> 'range list \<times> go_error option) \<Rightarrow> 'ports RouterGroup list \<Rightarrow> (string \<times> 'range) list" where
  "group_ranges parse groups =
     concat (map (\<lambda>g. map (Pair (rg_Name g)) (fst (parse (rg_ReservablePorts g)))) groups)"

definition conflicts :: "('range \<Rightarrow> u16 \<times> u16) \<Rightarrow> u16 list \<Rightarrow> string \<times> 'range \<Rightarrow> string list" where
  "conflicts endpoints ports nr =
     (case filter (in_range endpoints (snd nr)) ports of
        [] \<Rightarrow> []
      | ps \<Rightarrow> [conflictMessage (fst nr) (joinWith '', '' (map showU16 ps))])"

lemma overlapLoop_eq: "overlapLoop s e ps = map showU16 (filter (\<lambda>p. s \<le> p \<and> p \<le> e) ps)"
  by (induction ps) auto

lemma rangesLoop_eq:
  "rangesLoop endpoints name ports rs (b, errs) =
     (let new = concat (map (conflicts endpoints ports) (map (Pair name) rs)) in (b \<or> new \<noteq> [], errs @ new))"
proof (induction rs arbitrary: b errs)
  case (Cons r rs)
  have f: "filter (in_range endpoints r) ports = filter (\<lambda>p. fst (endpoints r) \<le> p \<and> p \<le> snd (endpoints r)) ports"
    by (rule filter_cong) (simp_all add: in_range_def)
  show ?case
    by (cases "filter (in_range endpoints r) ports")
      (simp_all add: Cons.IH Let_def case_prod_beta overlapLoop_eq conflicts_def f [symmetric])
qed simp

lemma groupsLoop_eq:
  "groupsLoop parse endpoints ports gs (b, errs) =
     (let new = concat (map (conflicts endpoints ports) (group_ranges parse gs)) in (b \<or> new \<noteq> [], errs @ new))"
proof (induction gs arbitrary: b errs)
  case (Cons g gs)
  obtain rs e where p: "parse (rg_ReservablePorts g) = (rs, e)" by force
  show ?case by (simp add: p rangesLoop_eq Cons.IH Let_def group_ranges_def)
qed (simp add: group_ranges_def)

lemma validate_eq:
  "validateRouterGroups parse endpoints gs ports =
     (let msgs = concat (map (conflicts endpoints ports) (group_ranges parse gs)) in (msgs \<noteq> [], msgs))"
  by (simp add: validateRouterGroups_def groupsLoop_eq Let_def)

lemma conflicts_empty_iff:
  "conflicts endpoints ports nr = [] \<longleftrightarrow> (\<forall>p \<in> set ports. \<not> in_range endpoints (snd nr) p)"
proof -
  have "conflicts endpoints ports nr = [] \<longleftrightarrow> filter (in_range endpoints (snd nr)) ports = []"
    by (simp add: conflicts_def split: list.splits)
  then show ?thesis by (simp add: filter_empty_conv)
qed

lemma some_conflict_iff:
  "concat (map (conflicts endpoints ports) nrs) \<noteq> [] \<longleftrightarrow>
     (\<exists>(n, r) \<in> set nrs. \<exists>p \<in> set ports. in_range endpoints r p)"
  by (force simp: conflicts_empty_iff)

text \<open>(C25) The check asks the router to exit exactly when it got the router groups and some
  reserved system port lies in a range a group reserves; it then returns one message for each such
  range of each group, naming the group and exactly its conflicting ports. If nothing conflicts it
  returns no error, and an error fetching the groups never asks to exit.\<close>

theorem port_check_correct:
  assumes "Check parse endpoints S ports w = ((shouldExit, err), w')" "getRouterGroups S w = (res, w1)"
  shows "w' = w1 \<and> (case res of
      Inl e \<Rightarrow> \<not> shouldExit \<and> err = Some e
    | Inr groups \<Rightarrow>
        (shouldExit \<longleftrightarrow> (\<exists>(n, r) \<in> set (group_ranges parse groups). \<exists>p \<in> set ports. in_range endpoints r p))
        \<and> err = (if shouldExit
             then Some (joinWith [CHR 10] (concat (map (conflicts endpoints ports) (group_ranges parse groups))))
             else None))"
proof (cases res)
  case (Inl e)
  then show ?thesis using assms by (auto simp: Check_def)
next
  case (Inr groups)
  let ?msgs = "concat (map (conflicts endpoints ports) (group_ranges parse groups))"
  have "((shouldExit, err), w') =
      ((?msgs \<noteq> [], if ?msgs = [] then None else Some (joinWith [CHR 10] ?msgs)), w1)"
    using assms Inr by (auto simp: Check_def validate_eq Let_def split: if_splits)
  then show ?thesis
    unfolding Inr sum.case some_conflict_iff [symmetric] by (simp split: if_splits)
qed

section \<open>Retries\<close>

text \<open>The world after \<open>n\<close> attempts of a call, and whether attempt \<open>n\<close> succeeds.\<close>

fun after :: "('w \<Rightarrow> 'r \<times> 'w) \<Rightarrow> nat \<Rightarrow> 'w \<Rightarrow> 'w" where
  "after f 0 w = w"
| "after f (Suc n) w = after f n (snd (f w))"

definition succeeds :: "('w \<Rightarrow> ('e + 'a) \<times> 'w) \<Rightarrow> nat \<Rightarrow> 'w \<Rightarrow> bool" where
  "succeeds f n w \<longleftrightarrow> \<not> isl (fst (f (after f n w)))"

lemma succeeds_Suc: "succeeds f (Suc n) w \<longleftrightarrow> succeeds f n (snd (f w))"
  by (simp add: succeeds_def)

lemma ex_less_Suc0: "(\<exists>i < Suc n. P i) \<longleftrightarrow> P 0 \<or> (\<exists>i < n. P (Suc i))"
  using less_Suc_eq_0_disj by auto

lemma tokenLoop_ok:
  "fst (tokenLoop S n err w) = None \<longleftrightarrow>
     (n = 0 \<and> err = None) \<or> (\<exists>i < n. succeeds (pc_FetchToken S False) i w)"
proof (induction n arbitrary: err w)
  case (Suc n)
  obtain r w1 where f: "pc_FetchToken S False w = (r, w1)" by force
  show ?case
    unfolding ex_less_Suc0 succeeds_Suc using Suc.IH [of "Some _" w1] f
    by (cases r) (auto simp: succeeds_def)
qed simp

lemma routerGroupsLoop_ok:
  "(\<exists>g. fst (routerGroupsLoop S n err w) = Inr g) \<longleftrightarrow> (\<exists>i < n. succeeds (pc_RouterGroups S) i w)"
proof (induction n arbitrary: err w)
  case (Suc n)
  obtain r w1 where f: "pc_RouterGroups S w = (r, w1)" by force
  show ?case
    unfolding ex_less_Suc0 succeeds_Suc using Suc.IH [of _ w1] f
    by (cases r) (auto simp: succeeds_def)
qed simp

text \<open>Fetching the groups tries the token fetcher up to three times and then, from the world
  \<open>w1\<close> that leaves, the API up to three times: it returns groups exactly when one of the first
  three attempts of each succeeds.\<close>

lemma router_groups_retried:
  assumes "tokenLoop S 3 None w = (err, w1)"
  shows "(\<exists>groups. fst (getRouterGroups S w) = Inr groups) \<longleftrightarrow>
    (\<exists>i < 3. succeeds (pc_FetchToken S False) i w) \<and> (\<exists>j < 3. succeeds (pc_RouterGroups S) j w1)"
proof -
  have "err = None \<longleftrightarrow> (\<exists>i < 3. succeeds (pc_FetchToken S False) i w)"
    using tokenLoop_ok [of S 3 None w] assms by simp
  then show ?thesis
    using routerGroupsLoop_ok [of S 3 "[]" w1, symmetric] assms
    by (auto simp: getRouterGroups_def Let_def split: option.splits sum.splits prod.splits)
qed

text \<open>For examples: groups reserve lists of ranges, and the API fails as often as the world, a
  number, says.\<close>

definition sample_ports :: "((u16 \<times> u16) list, nat) port_services" where
  "sample_ports =
     \<lparr>pc_FetchToken = (\<lambda>force n. (Inr ''token'', n)), pc_SetToken = (\<lambda>token n. n),
      pc_RouterGroups = (\<lambda>n. if n = 0 then (Inr [\<lparr>rg_Name = ''default-tcp'', rg_ReservablePorts = [(1024, 1123)]\<rparr>], 0)
        else (Inl ''EOF'', n - 1))\<rparr>"

lemma sample_groups:
  "getRouterGroups sample_ports 2 = (Inr [\<lparr>rg_Name = ''default-tcp'', rg_ReservablePorts = [(1024, 1123)]\<rparr>], 0)"
  by (simp add: getRouterGroups_def sample_ports_def numeral_3_eq_3 numeral_2_eq_2)

theorem port_check_correct_witness:
  "fst (fst (Check (\<lambda>rs. (rs, None)) id sample_ports [80, 1050] 2))
   \<and> \<not> fst (fst (Check (\<lambda>rs. (rs, None)) id sample_ports [80, 2000] 2))"
proof -
  let ?c = "\<lambda>ps. Check (\<lambda>rs. (rs, None)) id sample_ports ps 2"
  have c: "?c ps = ((fst (fst (?c ps)), snd (fst (?c ps))), snd (?c ps))" for ps by simp
  show ?thesis
    using port_check_correct [OF c sample_groups, of "[80, 1050]"] port_check_correct [OF c sample_groups, of "[80, 2000]"]
    by (simp add: group_ranges_def in_range_def)
qed

lemma router_groups_retried_witness: "\<exists>groups. fst (getRouterGroups sample_ports 2) = Inr groups"
proof -
  have "tokenLoop sample_ports 3 None 2 = (None, 2)" by (simp add: sample_ports_def numeral_3_eq_3)
  moreover have "succeeds (pc_FetchToken sample_ports False) 0 2" by (simp add: succeeds_def sample_ports_def)
  moreover have "succeeds (pc_RouterGroups sample_ports) 2 2"
    by (simp add: succeeds_def sample_ports_def numeral_2_eq_2)
  ultimately show ?thesis using router_groups_retried [of sample_ports 2 None 2] by force
qed

end
