(* ===== verification/Syncer.thy ===== *)
theory Syncer
  imports Process_Runner
begin

text \<open>
  The syncer of \<open>syncer/syncer.go\<close>: it asks the watcher for a bulk sync when it starts and at
  every tick. A request is a send on an unbuffered channel that gives up when nobody is receiving,
  so whether the watcher is at its \<open>select\<close> is part of the environment.
\<close>

record Syncer =
  sy_syncInterval :: duration
  sy_sent :: nat
  sy_tickerStopped :: bool

definition Syncer_New :: "duration \<Rightarrow> Syncer" where
  "Syncer_New syncInterval = \<lparr>sy_syncInterval = syncInterval, sy_sent = 0, sy_tickerStopped = False\<rparr>"

text \<open>\<open>sync\<close>: \<open>sy_sent\<close> counts the requests that were received.\<close>

definition sync :: "bool \<Rightarrow> Syncer \<Rightarrow> Syncer" where
  "sync receiving s = (if receiving then s\<lparr>sy_sent := Suc (sy_sent s)\<rparr> else s)"

datatype syncer_event = SyncTick bool

fun Syncer_step :: "Syncer \<Rightarrow> syncer_event loop_event \<Rightarrow> (go_error, Syncer) outcome" where
  "Syncer_step s (Internal (SyncTick receiving)) = Running (sync receiving s)"
| "Syncer_step s (Received sig) =
     (if sig \<noteq> SIGUSR2 then Returned None (s\<lparr>sy_tickerStopped := True\<rparr>) else Running s)"

definition Syncer_Run ::
  "bool \<Rightarrow> Syncer \<Rightarrow> syncer_event loop_event list \<Rightarrow> (go_error, Syncer) outcome go_result" where
  "Syncer_Run receiving0 s events =
     (let s1 = sync receiving0 s in
      case NewTicker (sy_syncInterval s1) of
        Ok _ \<Rightarrow> Ok (runLoop Syncer_step s1 events)
      | Panic \<Rightarrow> Panic
      | Blocked \<Rightarrow> Blocked)"

interpretation syn: ifrit_runner Syncer_step
  by unfold_locales auto

lemma Syncer_loop_sent:
  "sy_sent (outcome_state (runLoop Syncer_step s es)) =
     sy_sent s + length (filter (\<lambda>e. e = Internal (SyncTick True)) (live_events es))"
proof (induction es arbitrary: s)
  case (Cons e es)
  then show ?case
    by (cases "(s, e)" rule: Syncer_step.cases) (auto simp: live_events_def sync_def)
qed (simp add: live_events_def)

text \<open>(C30) The syncer gets exactly one sync request through for its start and for each tick before
  the signal that stops it, provided the watcher is receiving at that moment; a request it finds
  nobody for is dropped, not kept. It returns without an error exactly when a signal other than
  SIGUSR2 arrives, with its ticker stopped. With an interval that is not positive it panics.\<close>

theorem syncer_requests:
  "if interval \<le> 0 then Syncer_Run receiving0 (Syncer_New interval) es = Panic
   else \<exists>r. Syncer_Run receiving0 (Syncer_New interval) es = Ok r
     \<and> sy_sent (outcome_state r) =
         (if receiving0 then 1 else 0) + length (filter (\<lambda>e. e = Internal (SyncTick True)) (live_events es))
     \<and> (if \<exists>sig. Received sig \<in> set es \<and> sig \<noteq> SIGUSR2
        then \<exists>s. r = Returned None s \<and> sy_tickerStopped s
        else \<exists>s. r = Running s)"
proof -
  have "if \<exists>sig. Received sig \<in> set es \<and> sig \<noteq> SIGUSR2
      then \<exists>s. runLoop Syncer_step s0 es = Returned None s \<and> sy_tickerStopped s
      else \<exists>s. runLoop Syncer_step s0 es = Running s" for s0
  proof (induction es arbitrary: s0)
    case (Cons e es)
    show ?case using Cons.IH [of "case Syncer_step s0 e of Running s \<Rightarrow> s | Returned _ s \<Rightarrow> s"]
      by (cases "(s0, e)" rule: Syncer_step.cases) (auto split: if_splits)
  qed simp
  then show ?thesis
    by (auto simp: Syncer_Run_def Syncer_loop_sent sync_def Syncer_New_def)
qed

end
