(* ===== verification/Watcher.thy ===== *)
theory Watcher
  imports Process_Runner Updater
begin

text \<open>
  The watcher of \<open>watcher/watcher.go\<close>. One goroutine keeps a subscription to the event stream
  of the routing API and passes the events on; the main loop hands them to the updater and
  starts the syncs and the drain.

  The subscription runs over a list of rounds, each with the answers of the environment: the stop
  flag, the token fetcher, the API, the stream. What it does is a list of actions. The main loop
  records its calls to the updater in order.
\<close>

section \<open>The subscription\<close>

record 'tag sub_round =
  sr_stop :: bool
  sr_token :: "go_error + string"
  sr_subscribe :: "go_error option"
  sr_events :: "'tag TcpEvent list"
  sr_nextErr :: go_error
  sr_closeErr :: "go_error option"

datatype 'tag sub_action =
    FetchToken bool
  | SetToken string
  | Subscribe
  | StoreSource
  | Send "'tag TcpEvent"
  | CloseSource
  | Sleep duration

definition retryInterval :: "int \<Rightarrow> duration" where
  "retryInterval n = wrap64 (wrap64 n * second)"

text \<open>The inner loop: every event is sent on, until \<open>Next\<close> fails and the source is closed. The list of
  actions is that of a goroutine whose sends the main loop receives, as it does until it returns;
  afterwards nobody receives, and a goroutine with an event to send stays at \<open>eventChan <- event\<close> and
  does not look at the stop flag again.\<close>

fun nextLoop :: "'tag TcpEvent list \<Rightarrow> 'tag sub_action list" where
  "nextLoop [] = [CloseSource]"
| "nextLoop (event # rest) = Send event # nextLoop rest"

text \<open>A run of the goroutine: its actions, whether it returned, and the last value of
  \<open>canUseCachedToken\<close>.\<close>

fun subscribeLoop ::
  "int \<Rightarrow> bool \<Rightarrow> 'tag sub_round list \<Rightarrow> 'tag sub_action list \<times> bool \<times> bool" where
  "subscribeLoop interval canUseCachedToken [] = ([], False, canUseCachedToken)"
| "subscribeLoop interval canUseCachedToken (r # rest) =
     (if sr_stop r then ([], True, canUseCachedToken)
      else
        let (acts, next) =
          (case sr_token r of
             Inl err \<Rightarrow> ([FetchToken (\<not> canUseCachedToken), Sleep (retryInterval interval)], canUseCachedToken)
           | Inr token \<Rightarrow>
               (case sr_subscribe r of
                  Some err \<Rightarrow>
                    ([FetchToken (\<not> canUseCachedToken), SetToken token, Subscribe,
                      Sleep (retryInterval interval)], err \<noteq> ''unauthorized'')
                | None \<Rightarrow>
                    ([FetchToken (\<not> canUseCachedToken), SetToken token, Subscribe, StoreSource]
                       @ nextLoop (sr_events r), True)));
            (more, returned, last) = subscribeLoop interval next rest
        in (acts @ more, returned, last))"

section \<open>The main loop\<close>

datatype 'tag updater_call = CallHandleEvent "'tag TcpEvent" | GoSync | GoDrain

record 'tag Watcher =
  wt_subscriptionRetryInterval :: int
  wt_process :: bool
  wt_calls :: "'tag updater_call list"
  wt_stopEventSource :: bool
  wt_eventSource :: bool
  wt_closed :: nat

text \<open>\<open>wt_process\<close>: whether the process of the router has been set; \<open>wt_eventSource\<close>: whether a source
  has been stored.\<close>

datatype 'tag watcher_event = EventReceived "'tag TcpEvent" | SyncRequested | SourceStored

fun Watcher_step ::
  "'tag Watcher \<Rightarrow> 'tag watcher_event loop_event \<Rightarrow> (go_error, 'tag Watcher) outcome" where
  "Watcher_step s (Internal (EventReceived event)) =
     Running (s\<lparr>wt_calls := wt_calls s @ [CallHandleEvent event]\<rparr>)"
| "Watcher_step s (Internal SyncRequested) = Running (s\<lparr>wt_calls := wt_calls s @ [GoSync]\<rparr>)"
| "Watcher_step s (Internal SourceStored) = Running (s\<lparr>wt_eventSource := True\<rparr>)"
| "Watcher_step s (Received sig) =
     (if sig = SIGUSR2 then Running (s\<lparr>wt_calls := wt_calls s @ [GoDrain]\<rparr>)
      else Returned None (s\<lparr>wt_stopEventSource := True,
             wt_closed := (if wt_eventSource s then Suc (wt_closed s) else wt_closed s)\<rparr>))"

definition Watcher_New :: "int \<Rightarrow> 'tag Watcher" where
  "Watcher_New interval = \<lparr>wt_subscriptionRetryInterval = interval, wt_process = False, wt_calls = [],
     wt_stopEventSource = False, wt_eventSource = False, wt_closed = 0\<rparr>"

definition SetProcess :: "bool \<Rightarrow> 'tag Watcher \<Rightarrow> 'tag Watcher" where
  "SetProcess proc s = s\<lparr>wt_process := proc\<rparr>"

definition Watcher_Run :: "'tag Watcher \<Rightarrow> 'tag watcher_event loop_event list \<Rightarrow> (go_error, 'tag Watcher) outcome" where
  "Watcher_Run s events = runLoop Watcher_step s events"

lemma Watcher_New_simps [simp]:
  "wt_calls (Watcher_New n) = []" "\<not> wt_stopEventSource (Watcher_New n)" "\<not> wt_eventSource (Watcher_New n)"
  "wt_closed (Watcher_New n) = 0" "\<not> wt_process (Watcher_New n)"
  by (simp_all add: Watcher_New_def)

interpretation wat: ifrit_runner Watcher_step
  by unfold_locales auto

text \<open>The goroutine a SIGUSR2 starts: \<open>Drain\<close>, then an interrupt to the process of the router if
  one is set, whatever \<open>Drain\<close> returned.\<close>

definition drainGoroutine ::
  "('tag updater \<times> 'w \<Rightarrow> (go_error option \<times> 'tag updater \<times> 'w) option) \<Rightarrow> 'tag Watcher
   \<Rightarrow> 'tag updater \<times> 'w \<Rightarrow> (bool \<times> 'tag updater \<times> 'w) option" where
  "drainGoroutine drain s st =
     (case drain st of
        None \<Rightarrow> None
      | Some (err, st') \<Rightarrow> Some (wt_process s, st'))"

section \<open>What the watcher guarantees\<close>

fun call_of :: "'tag watcher_event loop_event \<Rightarrow> 'tag updater_call option" where
  "call_of (Internal (EventReceived e)) = Some (CallHandleEvent e)"
| "call_of (Internal SyncRequested) = Some GoSync"
| "call_of (Internal SourceStored) = None"
| "call_of (Received sig) = (if sig = SIGUSR2 then Some GoDrain else None)"

lemma Watcher_loop_calls:
  "wt_calls (outcome_state (runLoop Watcher_step s es)) = wt_calls s @ List.map_filter call_of (live_events es)"
proof (induction es arbitrary: s)
  case (Cons e es)
  then show ?case
    by (cases "(s, e)" rule: Watcher_step.cases) (auto simp: live_events_def map_filter_simps)
qed (simp add: live_events_def map_filter_simps)

lemma Watcher_loop_stop:
  "if \<exists>e \<in> set es. stops e
   then \<exists>s'. runLoop Watcher_step s es = Returned None s' \<and> wt_stopEventSource s'
     \<and> wt_closed s' = wt_closed s + (if wt_eventSource s \<or> Internal SourceStored \<in> set (live_events es) then 1 else 0)
   else is_running (runLoop Watcher_step s es)"
proof (induction es arbitrary: s)
  case (Cons e es)
  show ?case
    using Cons.IH [of "outcome_state (Watcher_step s e)"]
    by (cases "(s, e)" rule: Watcher_step.cases) (auto simp: live_events_def split: if_splits)
qed simp

text \<open>(C24) Until a signal other than SIGUSR2 arrives the watcher turns each thing it receives into
  exactly one call to the updater, in order: an event into \<open>HandleEvent\<close> in the loop itself, a
  request into a sync of its own goroutine, SIGUSR2 into a drain. That signal ends it without an
  error, sets the stop flag of the subscription and closes the event source, once, if there is one.\<close>

theorem watcher_dispatch:
  "wt_calls (outcome_state (Watcher_Run (SetProcess proc (Watcher_New interval)) es)) = List.map_filter call_of (live_events es)
   \<and> (if \<exists>e \<in> set es. stops e
      then \<exists>s. Watcher_Run (SetProcess proc (Watcher_New interval)) es = Returned None s \<and> wt_stopEventSource s
        \<and> wt_closed s = (if Internal SourceStored \<in> set (live_events es) then 1 else 0)
      else \<exists>s. Watcher_Run (SetProcess proc (Watcher_New interval)) es = Running s)"
  using Watcher_loop_calls [of "SetProcess proc (Watcher_New interval)" es]
    Watcher_loop_stop [of es "SetProcess proc (Watcher_New interval)"]
  by (auto simp: Watcher_Run_def SetProcess_def split: if_splits)

text \<open>The events a list of actions passes on and the token requests it makes.\<close>

definition sent :: "'tag sub_action list \<Rightarrow> 'tag TcpEvent list" where
  "sent acts = List.map_filter (\<lambda>a. case a of Send e \<Rightarrow> Some e | _ \<Rightarrow> None) acts"

definition forced :: "'tag sub_action list \<Rightarrow> bool list" where
  "forced acts = List.map_filter (\<lambda>a. case a of FetchToken b \<Rightarrow> Some b | _ \<Rightarrow> None) acts"

definition attempted :: "'tag sub_round \<Rightarrow> bool" where
  "attempted r \<longleftrightarrow> (\<exists>token. sr_token r = Inr token)"

definition subscribed :: "'tag sub_round \<Rightarrow> bool" where
  "subscribed r \<longleftrightarrow> attempted r \<and> sr_subscribe r = None"

text \<open>Whether the last attempt to subscribe in a list of rounds was refused as unauthorized.\<close>

fun refused_last :: "bool \<Rightarrow> 'tag sub_round list \<Rightarrow> bool" where
  "refused_last b [] = b"
| "refused_last b (r # rs) =
     refused_last (if attempted r then sr_subscribe r = Some ''unauthorized'' else b) rs"

lemma action_simps [simp]:
  "sent [] = []" "sent (Send e # as) = e # sent as" "sent (FetchToken b # as) = sent as"
  "sent (SetToken t # as) = sent as" "sent (Subscribe # as) = sent as" "sent (StoreSource # as) = sent as"
  "sent (CloseSource # as) = sent as" "sent (Sleep d # as) = sent as" "sent (as @ bs) = sent as @ sent bs"
  "forced [] = []" "forced (Send e # as) = forced as" "forced (FetchToken b # as) = b # forced as"
  "forced (SetToken t # as) = forced as" "forced (Subscribe # as) = forced as"
  "forced (StoreSource # as) = forced as" "forced (CloseSource # as) = forced as"
  "forced (Sleep d # as) = forced as" "forced (as @ bs) = forced as @ forced bs"
  by (simp_all add: sent_def forced_def map_filter_simps) (simp_all add: map_filter_def)

lemma nextLoop_simps [simp]: "sent (nextLoop es) = es" "forced (nextLoop es) = []"
  by (induction es) auto

lemma subscribeLoop_spec:
  "sent (fst (subscribeLoop n (\<not> b) rs)) = concat (map sr_events (filter subscribed (takeWhile (\<lambda>r. \<not> sr_stop r) rs)))
   \<and> forced (fst (subscribeLoop n (\<not> b) rs)) =
       map (\<lambda>k. refused_last b (take k rs)) [0..<length (takeWhile (\<lambda>r. \<not> sr_stop r) rs)]
   \<and> (fst (snd (subscribeLoop n (\<not> b) rs)) \<longleftrightarrow> (\<exists>r \<in> set rs. sr_stop r))"
proof (induction rs arbitrary: b)
  case (Cons r rs)
  define b' where "b' = (if attempted r then sr_subscribe r = Some ''unauthorized'' else b)"
  have upt: "map (\<lambda>k. refused_last b (take k (r # rs))) [0..<Suc m] =
      b # map (\<lambda>k. refused_last b' (take k rs)) [0..<m]" for m
    unfolding b'_def by (simp add: upt_rec [of 0 "Suc m"] map_Suc_upt [symmetric] del: upt_Suc)
  show ?case
  proof (cases "sr_stop r")
    case False
    then show ?thesis
      using Cons.IH [of b'] upt [of "length (takeWhile (\<lambda>r. \<not> sr_stop r) rs)"]
      by (auto simp: b'_def attempted_def subscribed_def Let_def case_prod_beta simp del: upt_Suc
          split: sum.splits option.splits)
  qed simp
qed simp

text \<open>(C23) The subscription passes on every event of every stream it opened, in order and none
  twice, for as long as it is not told to stop; it asks for a fresh token exactly when the last
  attempt to subscribe was refused as unauthorized, and it returns exactly when it sees the stop
  flag, whatever the API and the token fetcher answer.\<close>

theorem subscription_correct:
  "sent (fst (subscribeLoop interval True rounds)) =
     concat (map sr_events (filter subscribed (takeWhile (\<lambda>r. \<not> sr_stop r) rounds)))
   \<and> forced (fst (subscribeLoop interval True rounds)) =
       map (\<lambda>k. refused_last False (take k rounds)) [0..<length (takeWhile (\<lambda>r. \<not> sr_stop r) rounds)]
   \<and> (fst (snd (subscribeLoop interval True rounds)) \<longleftrightarrow> (\<exists>r \<in> set rounds. sr_stop r))"
  using subscribeLoop_spec [of interval False rounds] by simp

end
