(* ===== verification/Go_Csv.thy ===== *)
theory Go_Csv
  imports Go_Text
begin

text \<open>
  The CSV reader of Go's standard library (\<open>encoding/csv\<close>) with the settings of \<open>csv.NewReader\<close>: comma
  as the separator, no comments, strict quotes, every record with as many fields as the first. The
  reader works on lines that keep their newline; a carriage return before it, or at the end of the
  input, is dropped. \<open>csvReadAll\<close> is \<open>ReadAll\<close>; the last section shows what it makes of a text
  without quotes.
\<close>

section \<open>The reader\<close>

datatype csv_error = ErrBareQuote | ErrQuote | ErrFieldCount

definition dropCR :: "string \<Rightarrow> string" where
  "dropCR l = (if l \<noteq> [] \<and> last l = CHR 13 then butlast l else l)"

fun csvLines :: "string list \<Rightarrow> string list" where
  "csvLines [] = []"
| "csvLines [l] = (if l = [] then [] else [dropCR l])"
| "csvLines (l # ls) = (dropCR l @ [CHR 10]) # csvLines ls"

definition blankLine :: "string \<Rightarrow> bool" where
  "blankLine l \<longleftrightarrow> l = [] \<or> l = [CHR 10]"

definition stripNL :: "string \<Rightarrow> string" where
  "stripNL l = (if l \<noteq> [] \<and> last l = CHR 10 then butlast l else l)"

text \<open>\<open>parseField\<close> stands at the start of a field, \<open>parseQuoted\<close> inside a quoted one, which may go on
  over several lines. The result has the fields of the record and the lines after it.\<close>

function (sequential) parseField :: "string list \<Rightarrow> string \<Rightarrow> string list \<Rightarrow> csv_error + string list \<times> string list"
  and parseQuoted :: "string list \<Rightarrow> string \<Rightarrow> string \<Rightarrow> string list \<Rightarrow> csv_error + string list \<times> string list" where
  "parseField fields line rest =
     (if line \<noteq> [] \<and> hd line = CHR 34 then parseQuoted fields [] (tl line) rest
      else
        let field = takeWhile (\<lambda>c. c \<noteq> CHR '','') line in
        if length field < length line then
          if CHR 34 \<in> set field then Inl ErrBareQuote
          else parseField (fields @ [field]) (drop (Suc (length field)) line) rest
        else if CHR 34 \<in> set line then Inl ErrBareQuote
        else Inr (fields @ [stripNL line], rest))"
| "parseQuoted fields buf line rest =
     (let part = takeWhile (\<lambda>c. c \<noteq> CHR 34) line in
      if length part < length line then
        let line' = drop (Suc (length part)) line in
        if line' \<noteq> [] \<and> hd line' = CHR 34 then parseQuoted fields (buf @ part @ [CHR 34]) (tl line') rest
        else if line' \<noteq> [] \<and> hd line' = CHR '','' then parseField (fields @ [buf @ part]) (tl line') rest
        else if blankLine line' then Inr (fields @ [buf @ part], rest)
        else Inl ErrQuote
      else if line \<noteq> [] then
        (case rest of
           [] \<Rightarrow> parseQuoted fields (buf @ line) [] []
         | l # ls \<Rightarrow> parseQuoted fields (buf @ line) l ls)
      else Inl ErrQuote)"
  by pat_completeness auto
termination
  by (relation "measure (\<lambda>x. case x of Inl (f, l, r) \<Rightarrow> length l + sum_list (map (Suc \<circ> length) r)
      | Inr (f, b, l, r) \<Rightarrow> length l + sum_list (map (Suc \<circ> length) r))")
    (auto simp: neq_Nil_conv length_drop)

declare parseField.simps [simp del] parseQuoted.simps [simp del]

lemma parse_rest:
  "(\<And>r. parseField fields line rest = Inr r \<Longrightarrow> length (snd r) \<le> length rest)"
  "(\<And>r. parseQuoted fields buf line rest = Inr r \<Longrightarrow> length (snd r) \<le> length rest)"
proof (induction fields line rest and fields buf line rest rule: parseField_parseQuoted.induct)
  case (1 fields line rest)
  then show ?case
    by (subst (asm) parseField.simps [of fields line rest]) (auto simp: Let_def split: if_splits)
next
  case (2 fields buf line rest)
  note step = parseQuoted.simps [of fields buf line rest]
  show ?case
  proof (cases rest)
    case Nil
    then show ?thesis using "2.prems" "2.IH" unfolding step by (auto simp: Let_def split: if_splits)
  next
    case (Cons l ls)
    then show ?thesis using "2.prems" "2.IH" unfolding step by (cases r) (auto simp: Let_def split: if_splits intro: le_SucI)
  qed
qed

text \<open>The loop of \<open>ReadAll\<close>: \<open>n\<close> is the number of fields every record must have, 0 before the first.\<close>

function csvRecords :: "nat \<Rightarrow> string list \<Rightarrow> csv_error + string list list" where
  "csvRecords n [] = Inr []"
| "csvRecords n (line # rest) =
     (if blankLine line then csvRecords n rest
      else case parseField [] line rest of
        Inl err \<Rightarrow> Inl err
      | Inr (record, rest') \<Rightarrow>
          if n > 0 \<and> length record \<noteq> n then Inl ErrFieldCount
          else case csvRecords (length record) rest' of
            Inl err \<Rightarrow> Inl err
          | Inr records \<Rightarrow> Inr (record # records))"
  by pat_completeness auto
termination
  by (relation "measure (\<lambda>(n, ls). length ls)") (auto dest!: parse_rest(1))

definition csvReadAll :: "string \<Rightarrow> csv_error + string list list" where
  "csvReadAll text = csvRecords 0 (csvLines (splitOn (CHR 10) text))"

section \<open>What it reads\<close>

lemma parse_nonempty:
  "(\<And>r. parseField fields line rest = Inr r \<Longrightarrow> fst r \<noteq> [])"
  "(\<And>r. parseQuoted fields buf line rest = Inr r \<Longrightarrow> fst r \<noteq> [])"
proof (induction fields line rest and fields buf line rest rule: parseField_parseQuoted.induct)
  case (1 fields line rest)
  then show ?case
    by (subst (asm) parseField.simps [of fields line rest]) (auto simp: Let_def split: if_splits)
next
  case (2 fields buf line rest)
  note step = parseQuoted.simps [of fields buf line rest]
  show ?case
    using "2.prems" "2.IH" unfolding step by (cases rest) (auto simp: Let_def split: if_splits)
qed

text \<open>All records have the same number of fields.\<close>

lemma csvRecords_lengths:
  "csvRecords n ls = Inr rs \<Longrightarrow> r \<in> set rs \<Longrightarrow> r' \<in> set rs \<Longrightarrow> length r = length r' \<and> (n > 0 \<longrightarrow> length r = n)"
proof (induction n ls arbitrary: rs r r' rule: csvRecords.induct)
  case (2 n line rest)
  show ?case
  proof (cases "blankLine line")
    case True
    then show ?thesis using "2.IH"(1) [OF True _ "2.prems"(2,3)] "2.prems"(1) by auto
  next
    case False
    then obtain rcd rest' records where p: "parseField [] line rest = Inr (rcd, rest')"
      and n: "n = 0 \<or> length rcd = n" and c: "csvRecords (length rcd) rest' = Inr records"
      and rs: "rs = rcd # records"
      using "2.prems"(1) by (auto split: sum.splits if_splits)
    have pos: "length rcd > 0" using parse_nonempty(1) [OF p] by simp
    have "length x = length rcd" if "x \<in> set rs" for x
      using "2.IH"(2) [OF False p refl _ c, of x x] n pos that rs by auto
    then show ?thesis using "2.prems"(2,3) n by auto
  qed
qed simp

lemma csvReadAll_lengths:
  "csvReadAll text = Inr (header # rows) \<Longrightarrow> r \<in> set rows \<Longrightarrow> length r = length header"
  by (auto simp: csvReadAll_def dest: csvRecords_lengths [of _ _ _ r header])

text \<open>A text without quotes: rows of fields that hold no comma, quote or end of line.\<close>

definition plain_field :: "string \<Rightarrow> bool" where
  "plain_field f \<longleftrightarrow> set f \<inter> {CHR '','', CHR 34, CHR 10, CHR 13} = {}"

definition plain_row :: "string list \<Rightarrow> bool" where
  "plain_row r \<longleftrightarrow> r \<noteq> [] \<and> r \<noteq> [[]] \<and> list_all plain_field r"

definition csvText :: "string list list \<Rightarrow> string" where
  "csvText rows = concat (map (\<lambda>r. joinWith '','' r @ [CHR 10]) rows)"

lemma parseField_plain:
  "list_all plain_field (f # fs) \<Longrightarrow>
     parseField acc (joinWith '','' (f # fs) @ [CHR 10]) rest = Inr (acc @ f # fs, rest)"
proof (induction fs arbitrary: f acc)
  case Nil
  let ?line = "f @ [CHR 10]"
  have f: "CHR '','' \<notin> set ?line" "CHR 34 \<notin> set ?line" using Nil by (auto simp: plain_field_def)
  have tw: "takeWhile (\<lambda>c. c \<noteq> CHR '','') ?line = ?line" using f(1) by (subst takeWhile_eq_all_conv) auto
  have hd: "hd ?line \<noteq> CHR 34" using f(2) by (cases f) auto
  have "parseField acc ?line rest = Inr (acc @ [stripNL ?line], rest)"
    by (subst parseField.simps) (simp only: Let_def tw hd f, simp)
  then show ?case by (simp add: stripNL_def)
next
  case (Cons g gs)
  let ?line = "f @ CHR '','' # joinWith '','' (g # gs) @ [CHR 10]"
  have f: "CHR '','' \<notin> set f" "CHR 34 \<notin> set f" using Cons.prems by (auto simp: plain_field_def)
  have tw: "takeWhile (\<lambda>c. c \<noteq> CHR '','') ?line = f" using f(1) by (subst takeWhile_append2) auto
  have hd: "hd ?line \<noteq> CHR 34" using f(2) by (cases f) auto
  have "parseField acc ?line rest = parseField (acc @ [f]) (joinWith '','' (g # gs) @ [CHR 10]) rest"
    by (subst parseField.simps) (simp only: Let_def tw hd, simp add: f)
  also have "\<dots> = Inr ((acc @ [f]) @ g # gs, rest)" using Cons.prems by (intro Cons.IH) simp
  finally show ?case by simp
qed

lemma plain_chars: "list_all plain_field r \<Longrightarrow> c \<in> set (joinWith '','' r) \<Longrightarrow> c \<notin> {CHR 34, CHR 10, CHR 13}"
  by (induction r rule: induct_list012) (auto simp: plain_field_def)

lemma plain_not_blank: "plain_row r \<Longrightarrow> \<not> blankLine (joinWith '','' r @ [CHR 10])"
  by (cases r rule: remdups_adj.cases) (auto simp: plain_row_def blankLine_def)

lemma csvLines_csvText:
  "list_all plain_row rows \<Longrightarrow>
     csvLines (splitOn (CHR 10) (csvText rows)) = map (\<lambda>r. joinWith '','' r @ [CHR 10]) rows"
proof (induction rows)
  case (Cons r rows)
  let ?l = "joinWith '','' r"
  have chars: "CHR 10 \<notin> set ?l" "CHR 13 \<notin> set ?l"
    using plain_chars [of r] Cons.prems by (auto simp: plain_row_def)
  have "splitOn (CHR 10) (csvText (r # rows)) = ?l # splitOn (CHR 10) (csvText rows)"
    using splitOn_append_sep [OF chars(1), of "csvText rows"] by (simp add: csvText_def)
  moreover have "dropCR ?l = ?l" using chars(2) by (metis dropCR_def last_in_set)
  moreover obtain x xs where "splitOn (CHR 10) (csvText rows) = x # xs"
    using splitOn_nonempty [of "CHR 10" "csvText rows"] by (cases "splitOn (CHR 10) (csvText rows)") blast+
  ultimately show ?case using Cons by simp
qed (simp add: csvText_def)

lemma csvRecords_Cons:
  assumes "plain_row r"
  shows "csvRecords n ((joinWith '','' r @ [CHR 10]) # ls) =
    (if n > 0 \<and> length r \<noteq> n then Inl ErrFieldCount
     else case csvRecords (length r) ls of Inl err \<Rightarrow> Inl err | Inr rs \<Rightarrow> Inr (r # rs))"
proof -
  obtain f fs where r: "r = f # fs" using assms by (cases r) (auto simp: plain_row_def)
  then have "parseField [] (joinWith '','' r @ [CHR 10]) ls = Inr (r, ls)"
    using assms parseField_plain [of f fs "[]" ls] by (simp add: plain_row_def)
  then show ?thesis using plain_not_blank [OF assms] by simp
qed

lemma csvRecords_plain:
  assumes "list_all plain_row rows" and "n > 0"
  shows "csvRecords n (map (\<lambda>r. joinWith '','' r @ [CHR 10]) rows) =
    (if \<forall>r \<in> set rows. length r = n then Inr rows else Inl ErrFieldCount)"
  using assms by (induction rows) (auto simp: csvRecords_Cons simp del: csvRecords.simps(2))

text \<open>Reading back a text written without quotes gives its rows, unless their lengths differ.\<close>

lemma csvReadAll_csvText:
  assumes "list_all plain_row (header # rows)"
  shows "csvReadAll (csvText (header # rows)) =
    (if \<forall>r \<in> set rows. length r = length header then Inr (header # rows) else Inl ErrFieldCount)"
proof -
  have "length header > 0" using assms by (auto simp: plain_row_def)
  moreover have "list_all plain_row rows" "plain_row header" using assms by simp_all
  ultimately show ?thesis
    using csvRecords_plain [of rows "length header"]
    by (simp add: csvReadAll_def csvLines_csvText [OF assms] csvRecords_Cons del: csvRecords.simps(2))
qed

end
