(* ===== verification/Metrics.thy ===== *)
theory Metrics
  imports Config_Marshaller Process_Runner Go_Csv
begin

text \<open>
  The metrics of \<open>metrics_reporter/\<close>: the statistics client of
  \<open>haproxy_client/haproxy_client.go\<close>, the conversion of \<open>metrics_converter.go\<close>, the emitter of
  \<open>metrics_emitter.go\<close> and \<open>metrics.go\<close>, and the reporter of \<open>metrics_reporter.go\<close>.

  Counters are 64-bit words and wrap around as \<open>uint64\<close> does. The reader of CSV is
  that of \<open>Go_Csv\<close>. An index out of range is a panic and a read that never returns is blocked; both
  are values of \<open>go_result\<close>. A metric is recorded with the integer that \<open>float64\<close> is applied to.
\<close>

section \<open>The statistics client\<close>

record HaproxyStat =
  hs_ProxyName :: string
  hs_CurrentQueued :: u64
  hs_CurrentSessions :: u64
  hs_ErrorConnecting :: u64
  hs_AverageQueueTimeMs :: u64
  hs_AverageConnectTimeMs :: u64
  hs_AverageSessionTimeMs :: u64

type_synonym HaproxyStats = "HaproxyStat list"

definition convertToInt :: "string \<Rightarrow> u64" where
  "convertToInt s = (let (i, _) = ParseUint 64 s in of_nat i)"

text \<open>The largest index used is 61.\<close>

definition csvToHaproxyStat :: "string list \<Rightarrow> HaproxyStat go_result" where
  "csvToHaproxyStat row =
     (if length row \<le> 61 then Panic
      else Ok \<lparr>hs_ProxyName = row ! 0,
               hs_CurrentQueued = convertToInt (row ! 2),
               hs_CurrentSessions = convertToInt (row ! 4),
               hs_ErrorConnecting = convertToInt (row ! 13),
               hs_AverageQueueTimeMs = convertToInt (row ! 58),
               hs_AverageConnectTimeMs = convertToInt (row ! 59),
               hs_AverageSessionTimeMs = convertToInt (row ! 61)\<rparr>)"

fun linesLoop :: "string list list \<Rightarrow> HaproxyStats \<Rightarrow> HaproxyStats go_result" where
  "linesLoop [] stats = Ok stats"
| "linesLoop (line # rest) stats =
     (case csvToHaproxyStat line of
        Ok st \<Rightarrow> linesLoop rest (stats @ [st])
      | Panic \<Rightarrow> Panic
      | Blocked \<Rightarrow> Blocked)"

definition readCsv :: "string \<Rightarrow> HaproxyStats go_result" where
  "readCsv buffer =
     (case csvReadAll buffer of
        Inl err \<Rightarrow> Ok []
      | Inr [] \<Rightarrow> Ok []
      | Inr (header # rows) \<Rightarrow> linesLoop rows [])"

datatype conn_read = Chunk string | EOF | ReadFailed go_error

text \<open>The reading loop: the bytes read, \<open>None\<close> after an error. It has no deadline.\<close>

fun readLoop :: "conn_read list \<Rightarrow> string \<Rightarrow> string option go_result" where
  "readLoop [] buffer = Blocked"
| "readLoop (Chunk b # rest) buffer = readLoop rest (buffer @ b)"
| "readLoop (EOF # rest) buffer = Ok (Some buffer)"
| "readLoop (ReadFailed e # rest) buffer = Ok None"

definition GetStats ::
  "go_error option \<Rightarrow> go_error option \<Rightarrow> conn_read list \<Rightarrow> HaproxyStats go_result" where
  "GetStats dialErr writeErr reads =
     (if dialErr \<noteq> None then Ok []
      else if writeErr \<noteq> None then Ok []
      else case readLoop reads [] of
        Panic \<Rightarrow> Panic
      | Blocked \<Rightarrow> Blocked
      | Ok None \<Rightarrow> Ok []
      | Ok (Some buffer) \<Rightarrow> (if length buffer > 0 then readCsv buffer else Ok []))"

section \<open>The conversion\<close>

record ProxyStats =
  ps_ConnectionTime :: u64
  ps_CurrentSessions :: u64

record MetricsReport =
  mr_TotalCurrentQueuedRequests :: u64
  mr_TotalBackendConnectionErrors :: u64
  mr_AverageQueueTimeMs :: u64
  mr_AverageConnectTimeMs :: u64
  mr_ProxyMetrics :: "(RoutingKey, ProxyStats) gomap"
  mr_RouteErrorMap :: "(string, u64) gomap"

datatype proxy_error = NotAProxyName | BadPort num_error

definition proxyKey :: "string \<Rightarrow> proxy_error + RoutingKey" where
  "proxyKey proxy =
     (let proxyNameParts = splitOn (CHR ''_'') proxy in
      if length proxyNameParts \<noteq> 3 then Inl NotAProxyName
      else let (port, err) = ParseUint 16 (proxyNameParts ! 2) in
        case err of
          Some e \<Rightarrow> Inl (BadPort e)
        | None \<Rightarrow> Inr \<lparr>rk_Port = of_nat port, rk_SniHostname = SniHostname ''''\<rparr>)"

definition populateProxyStats ::
  "HaproxyStat \<Rightarrow> (RoutingKey, ProxyStats) gomap \<Rightarrow> (RoutingKey, ProxyStats) gomap" where
  "populateProxyStats proxyStat proxyStatsMap =
     (case proxyKey (hs_ProxyName proxyStat) of
        Inl err \<Rightarrow> proxyStatsMap
      | Inr key \<Rightarrow>
          (let m = (if gm_get proxyStatsMap key = None
                    then gm_put key \<lparr>ps_ConnectionTime = 0, ps_CurrentSessions = 0\<rparr> proxyStatsMap
                    else proxyStatsMap);
               v = the (gm_get m key);
               v1 = v\<lparr>ps_ConnectionTime := ps_ConnectionTime v + hs_AverageConnectTimeMs proxyStat\<rparr>;
               v2 = v1\<lparr>ps_CurrentSessions := ps_CurrentSessions v1 + hs_CurrentSessions proxyStat\<rparr>
           in gm_put key v2 m))"

text \<open>The variables of the loop: the four totals and the two maps.\<close>

record totals =
  tt_queued :: u64
  tt_errors :: u64
  tt_connect :: u64
  tt_queue :: u64
  tt_proxies :: "(RoutingKey, ProxyStats) gomap"
  tt_routes :: "(string, u64) gomap"

definition addStat :: "HaproxyStat \<Rightarrow> totals \<Rightarrow> totals" where
  "addStat st a =
     a\<lparr>tt_queued := tt_queued a + hs_CurrentQueued st,
       tt_errors := tt_errors a + hs_ErrorConnecting st,
       tt_connect := tt_connect a + hs_AverageConnectTimeMs st,
       tt_queue := tt_queue a + hs_AverageQueueTimeMs st,
       tt_routes := gm_put (hs_ProxyName st)
         ((case gm_get (tt_routes a) (hs_ProxyName st) of Some v \<Rightarrow> v | None \<Rightarrow> 0) + hs_ErrorConnecting st)
         (tt_routes a),
       tt_proxies := populateProxyStats st (tt_proxies a)\<rparr>"

fun statsLoop :: "HaproxyStats \<Rightarrow> totals \<Rightarrow> totals" where
  "statsLoop [] a = a"
| "statsLoop (st # rest) a = statsLoop rest (addStat st a)"

definition Convert :: "HaproxyStats \<Rightarrow> MetricsReport option" where
  "Convert proxyStats =
     (if length proxyStats = 0 then None
      else
        let len = (of_nat (length proxyStats) :: u64);
            a = statsLoop proxyStats
                  \<lparr>tt_queued = 0, tt_errors = 0, tt_connect = 0, tt_queue = 0,
                   tt_proxies = gm_empty, tt_routes = gm_empty\<rparr>
        in Some \<lparr>mr_TotalCurrentQueuedRequests = tt_queued a,
                 mr_TotalBackendConnectionErrors = tt_errors a,
                 mr_AverageQueueTimeMs = tt_queue a div len,
                 mr_AverageConnectTimeMs = tt_connect a div len,
                 mr_ProxyMetrics = tt_proxies a,
                 mr_RouteErrorMap = tt_routes a\<rparr>)"

section \<open>The emitter and the reporter\<close>

record metric =
  me_name :: string
  me_value :: u64
  me_unit :: string

definition Value_Send :: "string \<Rightarrow> u64 \<Rightarrow> metric" where
  "Value_Send name value = \<lparr>me_name = name, me_value = value, me_unit = ''Metric''\<rparr>"

definition ProxyValue_Send :: "string \<Rightarrow> string \<Rightarrow> u64 \<Rightarrow> metric" where
  "ProxyValue_Send name proxyName value = \<lparr>me_name = proxyName @ ''.'' @ name, me_value = value, me_unit = ''Metric''\<rparr>"

definition ProxyDurationMs_Send :: "string \<Rightarrow> string \<Rightarrow> u64 \<Rightarrow> metric" where
  "ProxyDurationMs_Send name proxyName dur = \<lparr>me_name = proxyName @ ''.'' @ name, me_value = dur, me_unit = ''ms''\<rparr>"

definition DurationMs_Send :: "string \<Rightarrow> u64 \<Rightarrow> metric" where
  "DurationMs_Send name dur = \<lparr>me_name = name, me_value = dur, me_unit = ''ms''\<rparr>"

definition RoutingKey_String :: "RoutingKey \<Rightarrow> string" where
  "RoutingKey_String k = showU16 (rk_Port k)"

fun proxyMetricsLoop :: "(RoutingKey, ProxyStats) gomap \<Rightarrow> metric list" where
  "proxyMetricsLoop [] = []"
| "proxyMetricsLoop ((k, v) # rest) =
     [ProxyDurationMs_Send ''ConnectionTime'' (RoutingKey_String k) (ps_ConnectionTime v),
      ProxyValue_Send ''CurrentSessions'' (RoutingKey_String k) (ps_CurrentSessions v)]
     @ proxyMetricsLoop rest"

fun routeErrorsLoop :: "(string, u64) gomap \<Rightarrow> metric list" where
  "routeErrorsLoop [] = []"
| "routeErrorsLoop ((k, v) # rest) = ProxyValue_Send ''ProxyConnectionErrors'' k v # routeErrorsLoop rest"

definition Emit :: "MetricsReport option \<Rightarrow> metric list" where
  "Emit r =
     (case r of
        None \<Rightarrow> []
      | Some r \<Rightarrow>
          [Value_Send ''TotalCurrentQueuedRequests'' (mr_TotalCurrentQueuedRequests r),
           Value_Send ''TotalBackendConnectionErrors'' (mr_TotalBackendConnectionErrors r),
           DurationMs_Send ''AverageQueueTimeMs'' (mr_AverageQueueTimeMs r),
           DurationMs_Send ''AverageConnectTimeMs'' (mr_AverageConnectTimeMs r)]
          @ proxyMetricsLoop (mr_ProxyMetrics r) @ routeErrorsLoop (mr_RouteErrorMap r))"

definition emitStats :: "HaproxyStats \<Rightarrow> metric list" where
  "emitStats stats = (if length stats > 0 then Emit (Convert stats) else [])"

record reporter =
  rp_emitted :: "metric list"
  rp_tickerStopped :: bool

datatype reporter_event = EmitTick HaproxyStats

fun Reporter_step :: "reporter \<Rightarrow> reporter_event loop_event \<Rightarrow> (go_error, reporter) outcome" where
  "Reporter_step r (Internal (EmitTick stats)) = Running (r\<lparr>rp_emitted := rp_emitted r @ emitStats stats\<rparr>)"
| "Reporter_step r (Received sig) =
     (if sig \<noteq> SIGUSR2 then Returned None (r\<lparr>rp_tickerStopped := True\<rparr>) else Running r)"

definition Reporter_Run :: "duration \<Rightarrow> reporter_event loop_event list \<Rightarrow> (go_error, reporter) outcome go_result" where
  "Reporter_Run emitInterval events =
     (case NewTicker emitInterval of
        Ok _ \<Rightarrow> Ok (runLoop Reporter_step \<lparr>rp_emitted = [], rp_tickerStopped = False\<rparr> events)
      | Panic \<Rightarrow> Panic
      | Blocked \<Rightarrow> Blocked)"

interpretation rep: ifrit_runner Reporter_step
  by unfold_locales auto

section \<open>Totals and averages\<close>

lemma unat_sum_list: "unat (sum_list (ws :: u64 list)) = (\<Sum>w\<leftarrow>ws. unat w) mod 2 ^ 64"
  by (induction ws) (simp_all add: unat_word_ariths mod_add_right_eq)

lemma statsLoop_totals:
  "tt_queued (statsLoop sts a) = tt_queued a + sum_list (map hs_CurrentQueued sts)"
  "tt_errors (statsLoop sts a) = tt_errors a + sum_list (map hs_ErrorConnecting sts)"
  "tt_connect (statsLoop sts a) = tt_connect a + sum_list (map hs_AverageConnectTimeMs sts)"
  "tt_queue (statsLoop sts a) = tt_queue a + sum_list (map hs_AverageQueueTimeMs sts)"
  by (induction sts arbitrary: a) (simp_all add: addStat_def)

lemma statsLoop_routes:
  "gm_get (tt_routes (statsLoop sts a)) n =
     (if gm_get (tt_routes a) n = None \<and> n \<notin> hs_ProxyName ` set sts then None
      else Some ((case gm_get (tt_routes a) n of Some v \<Rightarrow> v | None \<Rightarrow> 0)
        + sum_list (map hs_ErrorConnecting (filter (\<lambda>st. hs_ProxyName st = n) sts))))"
  by (induction sts arbitrary: a) (auto simp: addStat_def gomap_simps split: option.splits)

definition of_proxy :: "RoutingKey \<Rightarrow> HaproxyStat \<Rightarrow> bool" where
  "of_proxy k st \<longleftrightarrow> proxyKey (hs_ProxyName st) = Inr k"

lemma populate_get:
  "gm_get (populateProxyStats st m) k =
     (if of_proxy k st then
        Some (case gm_get m k of
          None \<Rightarrow> \<lparr>ps_ConnectionTime = hs_AverageConnectTimeMs st, ps_CurrentSessions = hs_CurrentSessions st\<rparr>
        | Some v \<Rightarrow> \<lparr>ps_ConnectionTime = ps_ConnectionTime v + hs_AverageConnectTimeMs st,
                     ps_CurrentSessions = ps_CurrentSessions v + hs_CurrentSessions st\<rparr>)
      else gm_get m k)"
  by (auto simp: populateProxyStats_def of_proxy_def Let_def gomap_simps split: sum.splits option.splits)

lemma statsLoop_proxies:
  "gm_get (tt_proxies (statsLoop sts a)) k =
     (if gm_get (tt_proxies a) k = None \<and> \<not> list_ex (of_proxy k) sts then None
      else Some
        \<lparr>ps_ConnectionTime = (case gm_get (tt_proxies a) k of Some v \<Rightarrow> ps_ConnectionTime v | None \<Rightarrow> 0)
           + sum_list (map hs_AverageConnectTimeMs (filter (of_proxy k) sts)),
         ps_CurrentSessions = (case gm_get (tt_proxies a) k of Some v \<Rightarrow> ps_CurrentSessions v | None \<Rightarrow> 0)
           + sum_list (map hs_CurrentSessions (filter (of_proxy k) sts))\<rparr>)"
proof (induction sts arbitrary: a)
  case Nil
  then show ?case by (auto split: option.splits)
next
  case (Cons st sts)
  have "tt_proxies (addStat st a) = populateProxyStats st (tt_proxies a)" by (simp add: addStat_def)
  then show ?case using Cons by (auto simp: populate_get algebra_simps split: option.splits)
qed

text \<open>(C26) The report of a non-empty list of statistics: the totals are the sums and the averages
  the quotients by their number, both of the sums modulo 2 to the 64; the errors of each proxy
  name and the connection time and sessions of each port are summed over exactly the statistics
  with that name or port, and nothing else is in the maps. No statistics give no report.\<close>

theorem convert_correct:
  assumes "sts \<noteq> []" "length sts < 2 ^ 64" "Convert sts = Some r"
  shows "unat (mr_TotalCurrentQueuedRequests r) = (\<Sum>st\<leftarrow>sts. unat (hs_CurrentQueued st)) mod 2 ^ 64
    \<and> unat (mr_TotalBackendConnectionErrors r) = (\<Sum>st\<leftarrow>sts. unat (hs_ErrorConnecting st)) mod 2 ^ 64
    \<and> unat (mr_AverageQueueTimeMs r) = ((\<Sum>st\<leftarrow>sts. unat (hs_AverageQueueTimeMs st)) mod 2 ^ 64) div length sts
    \<and> unat (mr_AverageConnectTimeMs r) = ((\<Sum>st\<leftarrow>sts. unat (hs_AverageConnectTimeMs st)) mod 2 ^ 64) div length sts
    \<and> (\<forall>n. gm_get (mr_RouteErrorMap r) n =
        (if n \<in> hs_ProxyName ` set sts
         then Some (sum_list (map hs_ErrorConnecting (filter (\<lambda>st. hs_ProxyName st = n) sts))) else None))
    \<and> (\<forall>k. gm_get (mr_ProxyMetrics r) k =
        (if list_ex (of_proxy k) sts
         then Some \<lparr>ps_ConnectionTime = sum_list (map hs_AverageConnectTimeMs (filter (of_proxy k) sts)),
                    ps_CurrentSessions = sum_list (map hs_CurrentSessions (filter (of_proxy k) sts))\<rparr>
         else None))"
proof -
  let ?a = "statsLoop sts \<lparr>tt_queued = 0, tt_errors = 0, tt_connect = 0, tt_queue = 0,
    tt_proxies = gm_empty, tt_routes = gm_empty\<rparr>"
  have len: "unat (of_nat (length sts) :: u64) = length sts"
    using assms(2) by (simp add: unat_of_nat)
  have r: "r = \<lparr>mr_TotalCurrentQueuedRequests = tt_queued ?a, mr_TotalBackendConnectionErrors = tt_errors ?a,
      mr_AverageQueueTimeMs = tt_queue ?a div of_nat (length sts),
      mr_AverageConnectTimeMs = tt_connect ?a div of_nat (length sts),
      mr_ProxyMetrics = tt_proxies ?a, mr_RouteErrorMap = tt_routes ?a\<rparr>"
    using assms(1,3) by (simp add: Convert_def Let_def)
  show ?thesis
    unfolding r
    by (simp add: statsLoop_totals unat_sum_list unat_div len statsLoop_routes statsLoop_proxies
        gomap_simps comp_def)
qed

definition sample_stat :: "string \<Rightarrow> u64 \<Rightarrow> HaproxyStat" where
  "sample_stat name n = \<lparr>hs_ProxyName = name, hs_CurrentQueued = n, hs_CurrentSessions = n,
     hs_ErrorConnecting = n, hs_AverageQueueTimeMs = n, hs_AverageConnectTimeMs = n, hs_AverageSessionTimeMs = n\<rparr>"

theorem convert_correct_witness:
  "\<exists>r. Convert [sample_stat ''listen_cfg_9001'' 4, sample_stat ''listen_cfg_9001'' 7] = Some r
     \<and> unat (mr_TotalCurrentQueuedRequests r) = 11 \<and> unat (mr_AverageQueueTimeMs r) = 5
     \<and> gm_get (mr_RouteErrorMap r) ''listen_cfg_9001'' = Some 11"
proof -
  let ?sts = "[sample_stat ''listen_cfg_9001'' 4, sample_stat ''listen_cfg_9001'' 7]"
  obtain r where r: "Convert ?sts = Some r" by (simp add: Convert_def Let_def)
  show ?thesis
  proof (intro exI conjI)
    show "Convert ?sts = Some r" by (rule r)
    show "unat (mr_TotalCurrentQueuedRequests r) = 11" "unat (mr_AverageQueueTimeMs r) = 5"
      "gm_get (mr_RouteErrorMap r) ''listen_cfg_9001'' = Some 11"
      using convert_correct [OF _ _ r] by (simp_all add: sample_stat_def flip: numeral_2_eq_2)
  qed
qed

section \<open>Names of proxies\<close>

lemma no_underscore_showU16 [simp]: "CHR ''_'' \<notin> set (showU16 p)"
  using showU16_digits [of "CHR ''_''" p] by (auto simp: is_digit_def)

lemma split_two: "CHR ''_'' \<notin> set a \<Longrightarrow> CHR ''_'' \<notin> set b \<Longrightarrow>
    splitOn (CHR ''_'') (a @ CHR ''_'' # b) = [a, b]"
  by (simp add: splitOn_append_sep splitOn_no_sep)

text \<open>The names the marshaller gives are not names the metrics understand: a frontend
  \<open>frontend_<port>\<close> and a default backend \<open>backend_<port>\<close> have two parts and not three, so
  neither is counted under any port; and a backend for an SNI host that is a number is counted
  under that number instead of its port.\<close>

lemma marshalled_names_not_counted:
  assumes "n < 2 ^ 16"
  shows "proxyKey (''frontend_'' @ showU16 p) = Inl NotAProxyName
    \<and> proxyKey (backendCfgName p (SniHostname '''')) = Inl NotAProxyName
    \<and> proxyKey (backendCfgName p (SniHostname (showNat n))) = Inr \<lparr>rk_Port = of_nat n, rk_SniHostname = SniHostname ''''\<rparr>"
proof -
  have two: "splitOn (CHR ''_'') (''frontend_'' @ showU16 p) = [''frontend'', showU16 p]"
      "splitOn (CHR ''_'') (''backend_'' @ showU16 p) = [''backend'', showU16 p]"
    using split_two [of "''frontend''" "showU16 p"] split_two [of "''backend''" "showU16 p"] by simp_all
  have digits: "CHR ''_'' \<notin> set (showNat n)" using showNat_digits [of "CHR ''_''" n] by (auto simp: is_digit_def)
  have "splitOn (CHR ''_'') (''backend_'' @ showU16 p @ ''_'' @ showNat n) = [''backend'', showU16 p, showNat n]"
    using splitOn_append_sep [of "CHR ''_''" "''backend''" "showU16 p @ ''_'' @ showNat n"]
      split_two [OF no_underscore_showU16 digits, of p] by simp
  then show ?thesis
    using two assms by (simp add: proxyKey_def backendCfgName_def ParseUint_showNat)
qed

lemma marshalled_names_not_counted_witness:
  "proxyKey (backendCfgName 1024 (SniHostname (showNat 8080))) = Inr \<lparr>rk_Port = 8080, rk_SniHostname = SniHostname ''''\<rparr>"
  using marshalled_names_not_counted [of 8080 1024] by simp

section \<open>Reading the statistics\<close>

definition stat_of :: "string list \<Rightarrow> HaproxyStat" where
  "stat_of row =
     \<lparr>hs_ProxyName = row ! 0, hs_CurrentQueued = convertToInt (row ! 2),
      hs_CurrentSessions = convertToInt (row ! 4), hs_ErrorConnecting = convertToInt (row ! 13),
      hs_AverageQueueTimeMs = convertToInt (row ! 58), hs_AverageConnectTimeMs = convertToInt (row ! 59),
      hs_AverageSessionTimeMs = convertToInt (row ! 61)\<rparr>"

lemma linesLoop_spec:
  "linesLoop rows acc = (if \<forall>row \<in> set rows. 62 \<le> length row then Ok (acc @ map stat_of rows) else Panic)"
proof (induction rows arbitrary: acc)
  case (Cons row rows)
  then show ?case by (cases "length row \<le> 61") (auto simp: csvToHaproxyStat_def stat_of_def)
qed simp

lemma readLoop_chunks: "readLoop (map Chunk bs @ EOF # rest) acc = Ok (Some (acc @ concat bs))"
  by (induction bs arbitrary: acc) auto

lemma readCsv_spec:
  "readCsv buffer = (case csvReadAll buffer of
     Inr (header # rows) \<Rightarrow> if rows = [] \<or> 62 \<le> length header then Ok (map stat_of rows) else Panic
   | _ \<Rightarrow> Ok [])"
proof (cases "csvReadAll buffer")
  case (Inr lines)
  show ?thesis
  proof (cases lines)
    case (Cons h rs)
    then have len: "length r = length h" if "r \<in> set rs" for r
      using that csvReadAll_lengths [of buffer h rs r] Inr by simp
    then have "(\<forall>row \<in> set rs. 62 \<le> length row) \<longleftrightarrow> rs = [] \<or> 62 \<le> length h"
      by (metis ex_in_conv set_empty)
    then show ?thesis using Inr Cons by (simp add: readCsv_def linesLoop_spec)
  qed (simp add: Inr readCsv_def)
qed (simp add: readCsv_def)

text \<open>(C27) However the reply is cut into reads, the statistics are those of all the rows below the
  header, in order; a reply that is not CSV gives none, and one whose header has fewer than 62
  fields makes the program panic at the first row. For a reply of rows without quotes: no
  statistics when a row differs from the header in length, otherwise those of the rows, unless the
  header is too short. A connection that fails, or fails while sending or reading, gives none.\<close>

theorem get_stats_correct:
  assumes "list_all plain_row (header # rows)" and "concat chunks = csvText (header # rows)"
  shows "GetStats None None (map Chunk bs @ EOF # rest) =
      (case csvReadAll (concat bs) of
         Inr (h # rs) \<Rightarrow> if rs = [] \<or> 62 \<le> length h then Ok (map stat_of rs) else Panic
       | _ \<Rightarrow> Ok [])
    \<and> GetStats None None (map Chunk chunks @ EOF # rest) =
      (if \<exists>row \<in> set rows. length row \<noteq> length header then Ok []
       else if rows = [] \<or> 62 \<le> length header then Ok (map stat_of rows) else Panic)
    \<and> GetStats (Some e) writeErr reads = Ok []
    \<and> GetStats None (Some e) reads = Ok []
    \<and> GetStats None None (map Chunk bs @ ReadFailed e # rest) = Ok []"
proof -
  have failed: "readLoop (map Chunk cs @ ReadFailed e # rest) acc = Ok None" for cs acc
    by (induction cs arbitrary: acc) auto
  have read: "GetStats None None (map Chunk cs @ EOF # rest) = readCsv (concat cs)" for cs
  proof (cases "concat cs = []")
    case True
    have "readCsv [] = Ok []" by (simp add: readCsv_spec csvReadAll_def)
    then show ?thesis using True by (simp only: GetStats_def readLoop_chunks) simp
  qed (simp add: GetStats_def readLoop_chunks)
  show ?thesis
    using csvReadAll_csvText [OF assms(1)]
    by (simp add: read failed readCsv_spec assms(2)) (simp add: GetStats_def failed)
qed

text \<open>A short row after long ones, a short header, and a row of 62 fields.\<close>

theorem get_stats_correct_witness:
  "GetStats None None [Chunk (csvText [replicate 62 ''5'', replicate 62 ''5'', [''a'', ''b'']]), EOF] = Ok []
   \<and> GetStats None None [Chunk (csvText [[''a'', ''b''], [''5'', ''5'']]), EOF] = Panic
   \<and> GetStats None None [Chunk (csvText [replicate 62 ''h'']), Chunk (csvText [replicate 62 ''5'']), EOF]
       = Ok [sample_stat ''5'' 5]"
proof (intro conjI)
  have row: "plain_row (replicate 62 [c])" if "c \<in> {CHR ''5'', CHR ''h''}" for c
    using that by (auto simp: plain_row_def plain_field_def list_all_iff dest: arg_cong [of _ _ length])
  have two: "plain_row [[c], [d]]" if "c \<in> {CHR ''5'', CHR ''a'', CHR ''b''}" "d \<in> {CHR ''5'', CHR ''a'', CHR ''b''}" for c d
    using that by (auto simp: plain_row_def plain_field_def)
  show "GetStats None None [Chunk (csvText [replicate 62 ''5'', replicate 62 ''5'', [''a'', ''b'']]), EOF] = Ok []"
    using get_stats_correct [of "replicate 62 ''5''" "[replicate 62 ''5'', [''a'', ''b'']]"
        "[csvText [replicate 62 ''5'', replicate 62 ''5'', [''a'', ''b'']]]" "[]" "[]"] row two by simp
  show "GetStats None None [Chunk (csvText [[''a'', ''b''], [''5'', ''5'']]), EOF] = Panic"
    using get_stats_correct [of "[''a'', ''b'']" "[[''5'', ''5'']]" "[csvText [[''a'', ''b''], [''5'', ''5'']]]" "[]" "[]"]
      two by simp
  have "convertToInt ''5'' = 5" by (simp add: convertToInt_def ParseUint_def is_digit_def digit_val_def)
  then show "GetStats None None [Chunk (csvText [replicate 62 ''h'']), Chunk (csvText [replicate 62 ''5'']), EOF]
      = Ok [sample_stat ''5'' 5]"
    using get_stats_correct [of "replicate 62 ''h''" "[replicate 62 ''5'']"
        "[csvText [replicate 62 ''h''], csvText [replicate 62 ''5'']]" "[]" "[]"] row
    by (simp add: stat_of_def sample_stat_def csvText_def)
qed

end
