(* ===== verification/Main_Program.thy ===== *)
theory Main_Program
  imports Haproxy_Configurer Port_Checker Syncer Watcher Metrics
begin

text \<open>
  The start of the program, \<open>main.go\<close>: what it checks, in which order, what it ends with and what
  it runs. The constructors of other packages are parameters, applied to what the program passes
  them: \<open>dropsonde.Initialize\<close>, the token fetcher and its \<open>FetchKey\<close>, the TLS settings of the API
  client, and what the port check needs. The goroutine that reaps children is in \<open>Child_Reaper\<close>,
  the reading of the command line in \<open>Command_Line\<close>.

  The durations of the flags are compared as they are, where the code compares \<open>Seconds()\<close>, a 64-bit
  floating point number: from 0 to 65535 seconds these are less than a nanosecond apart, so the
  comparison with 65535 and that of two durations in this range is the same. For durations many days
  below zero two different ones may count as equal, and then the code goes on where the model
  reports an invalid interval; it still does not start, since \<open>NewTicker\<close> panics for them.
\<close>

section \<open>checkPorts\<close>

datatype port_check_log = PortCheckFailure go_error | PortCheckWarning go_error | PortCheckError go_error | PortCheckSuccess

text \<open>Whether the program exits, and what it logs.\<close>

definition checkPorts :: "bool \<Rightarrow> bool \<times> go_error option \<Rightarrow> bool \<times> port_check_log" where
  "checkPorts routingGroupCheckExit result =
     (let (shouldExit, err) = result in
      case err of
        Some e \<Rightarrow>
          if shouldExit \<and> routingGroupCheckExit then (True, PortCheckFailure e)
          else if shouldExit \<and> \<not> routingGroupCheckExit then (False, PortCheckWarning e)
          else (False, PortCheckError e)
      | None \<Rightarrow> (False, PortCheckSuccess))"

section \<open>main\<close>

record flags =
  fl_tcpLoadBalancer :: string
  fl_tcpLoadBalancerBaseCfg :: string
  fl_tcpLoadBalancerCfg :: string
  fl_tcpLoadBalancerStatsUnixSocket :: string
  fl_subscriptionRetryInterval :: int
  fl_configFile :: string
  fl_routingGroupCheckExit :: bool
  fl_haproxyReloader :: string
  fl_syncInterval :: duration
  fl_tokenFetchMaxRetries :: nat
  fl_tokenFetchRetryInterval :: duration
  fl_tokenFetchExpirationBufferTime :: u64
  fl_statsCollectionInterval :: duration
  fl_dropsondePort :: int
  fl_staleRouteCheckInterval :: duration
  fl_defaultRouteExpiry :: duration
  fl_debugAddr :: string

text \<open>The values without arguments on the command line; the address of the debug server is a flag
  of its own package.\<close>

definition defaultFlags :: flags where
  "defaultFlags =
     \<lparr>fl_tcpLoadBalancer = HaProxyConfigurer,
      fl_tcpLoadBalancerBaseCfg = '''',
      fl_tcpLoadBalancerCfg = '''',
      fl_tcpLoadBalancerStatsUnixSocket = ''/var/vcap/jobs/haproxy/config/haproxy.sock'',
      fl_subscriptionRetryInterval = 5,
      fl_configFile = ''/var/vcap/jobs/tcp_router/config/tcp_router.yml'',
      fl_routingGroupCheckExit = False,
      fl_haproxyReloader = ''/var/vcap/jobs/tcp_router/bin/haproxy_reloader'',
      fl_syncInterval = 60 * second,
      fl_tokenFetchMaxRetries = 3,
      fl_tokenFetchRetryInterval = 5 * second,
      fl_tokenFetchExpirationBufferTime = 30,
      fl_statsCollectionInterval = 60 * second,
      fl_dropsondePort = 3457,
      fl_staleRouteCheckInterval = 30 * second,
      fl_defaultRouteExpiry = 120 * second,
      fl_debugAddr = ''''\<rparr>"

datatype exit_reason =
    FailedToUnmarshalConfigFile config_error
  | FatalConfigurer string go_error
  | InvalidRouteExpiry
  | InvalidStaleRouteCheckInterval
  | FatalTokenFetcher go_error
  | FailedConnectingToUaa go_error
  | FatalTlsConfig go_error
  | PortConflict go_error
  | NonPositiveTicker

text \<open>\<open>NonPositiveTicker\<close> is the panic of \<open>clock.NewTicker(*staleRouteCheckInterval)\<close>.\<close>

text \<open>The settings of the UAA client.\<close>

record uaa_config =
  uaa_Port :: u16
  uaa_SkipSSLValidation :: bool
  uaa_ClientName :: string
  uaa_ClientSecret :: string
  uaa_CACerts :: string
  uaa_TokenEndpoint :: string

definition uaaConfig :: "Config \<Rightarrow> uaa_config" where
  "uaaConfig cfg =
     (let oauth = cfg_OAuth cfg in
      \<lparr>uaa_Port = oa_Port oauth, uaa_SkipSSLValidation = oa_SkipSSLValidation oauth, uaa_ClientName = oa_ClientName oauth,
       uaa_ClientSecret = oa_ClientSecret oauth, uaa_CACerts = oa_CACerts oauth, uaa_TokenEndpoint = oa_TokenEndpoint oauth\<rparr>)"

definition routingAPIAddress :: "Config \<Rightarrow> string" where
  "routingAPIAddress cfg = api_URI (cfg_RoutingAPI cfg) @ '':'' @ showNat (unat (api_Port (cfg_RoutingAPI cfg)))"

text \<open>What other packages contribute to the start: each constructor from its arguments.\<close>

record ('ports, 'range, 'v) startup =
  st_DropsondeInitialize :: "string \<Rightarrow> string \<Rightarrow> go_error option"
  st_NewTokenFetcher :: "bool \<Rightarrow> uaa_config \<Rightarrow> nat \<Rightarrow> duration \<Rightarrow> int \<Rightarrow> go_error option"
  st_FetchKey :: "go_error option"
  st_TlsConfig :: "string \<Rightarrow> string \<Rightarrow> string \<Rightarrow> go_error option"
  st_Parse :: "'ports \<Rightarrow> 'range list \<times> go_error option"
  st_Endpoints :: "'range \<Rightarrow> u16 \<times> u16"
  st_PortServices :: "('ports, 'v) port_services"

datatype start_log =
    FailedToInitializeDropsonde go_error
  | RetrievedIsolationSegments string
  | PortCheck port_check_log

datatype runner = DebugServer string | SyncRunner Syncer | MetricsReporterRunner string duration duration | MonitorRunner | WatcherRunner int

record 'tag started =
  rt_config :: Config
  rt_configurer :: Configurer
  rt_updater :: "'tag updater"
  rt_pruneInterval :: duration
  rt_members :: "(string \<times> runner) list"
  rt_routingAPIAddress :: string

text \<open>\<open>int(d.Seconds())\<close>: towards zero.\<close>

definition wholeSeconds :: "duration \<Rightarrow> int" where
  "wholeSeconds d = (if d < 0 then - ((- d) div second) else d div second)"

definition statsConnectionTimeout :: duration where "statsConnectionTimeout = 10 * second"

definition members :: "flags \<Rightarrow> (string \<times> runner) list" where
  "members fl =
     (let ms = [(''syncer'', SyncRunner (Syncer_New (fl_syncInterval fl))),
                (''metricsReporter'', MetricsReporterRunner (fl_tcpLoadBalancerStatsUnixSocket fl)
                   statsConnectionTimeout (fl_statsCollectionInterval fl)),
                (''monitor'', MonitorRunner),
                (''watcher'', WatcherRunner (fl_subscriptionRetryInterval fl))]
      in if fl_debugAddr fl \<noteq> '''' then [(''debug-server'', DebugServer (fl_debugAddr fl))] @ ms else ms)"

definition dropsondeOrigin :: string where "dropsondeOrigin = ''tcp-router''"

definition initializeDropsonde :: "(string \<Rightarrow> string \<Rightarrow> go_error option) \<Rightarrow> flags \<Rightarrow> start_log list" where
  "initializeDropsonde initialize fl =
     (case initialize (''localhost:'' @ showInt (fl_dropsondePort fl)) dropsondeOrigin of
        Some err \<Rightarrow> [FailedToInitializeDropsonde err]
      | None \<Rightarrow> [])"

definition logIsolationSegments :: "Config \<Rightarrow> start_log list" where
  "logIsolationSegments cfg =
     (if length (cfg_IsolationSegments cfg) > 0
      then [RetrievedIsolationSegments (''['' @ joinWith '','' (cfg_IsolationSegments cfg) @ '']'')] else [])"

text \<open>From the checks of the flags to the check of the ports: why the program ends, or nothing, and
  the state of the services the port check used.\<close>

definition startupChecks ::
  "flags \<Rightarrow> ('ports, 'range, 'v) startup \<Rightarrow> Config \<Rightarrow> 'v \<Rightarrow> (exit_reason option \<times> start_log list) \<times> 'v" where
  "startupChecks fl st cfg v =
     (if fl_defaultRouteExpiry fl > 65535 * second then ((Some InvalidRouteExpiry, []), v)
      else if fl_staleRouteCheckInterval fl > fl_defaultRouteExpiry fl
      then ((Some InvalidStaleRouteCheckInterval, []), v)
      else if unat (fl_tokenFetchExpirationBufferTime fl) > 2 ^ 63 - 1
      then ((Some (FatalTokenFetcher ''token fetch expiration buffer time exceeds MaxInt64 value''), []), v)
      else
        (case st_NewTokenFetcher st (api_AuthDisabled (cfg_RoutingAPI cfg)) (uaaConfig cfg)
                (fl_tokenFetchMaxRetries fl) (fl_tokenFetchRetryInterval fl)
                (int (unat (fl_tokenFetchExpirationBufferTime fl))) of
           Some err \<Rightarrow> ((Some (FatalTokenFetcher err), []), v)
         | None \<Rightarrow>
        (case st_FetchKey st of
           Some err \<Rightarrow> ((Some (FailedConnectingToUaa err), []), v)
         | None \<Rightarrow>
        (case st_TlsConfig st (api_ClientCertificatePath (cfg_RoutingAPI cfg))
                (api_ClientPrivateKeyPath (cfg_RoutingAPI cfg)) (api_CACertificatePath (cfg_RoutingAPI cfg)) of
           Some err \<Rightarrow> ((Some (FatalTlsConfig err), []), v)
         | None \<Rightarrow>
             (let (result, v') = Check (st_Parse st) (st_Endpoints st) (st_PortServices st)
                                   (cfg_ReservedSystemComponentPorts cfg) v;
                  (exits, lg) = checkPorts (fl_routingGroupCheckExit fl) result
              in ((if exits then Some (PortConflict (the (snd result))) else None, [PortCheck lg]), v'))))))"

definition main ::
  "crypto \<Rightarrow> (string \<Rightarrow> Config \<Rightarrow> go_error + Config option) \<Rightarrow> script \<Rightarrow> flags \<Rightarrow> ('ports, 'range, 'v) startup
   \<Rightarrow> router_world \<Rightarrow> 'v \<Rightarrow> (exit_reason + 'tag started) \<times> start_log list \<times> router_world \<times> 'v" where
  "main C unmarshal script fl st w v =
     (let lg0 = initializeDropsonde (st_DropsondeInitialize st) fl in
      case Config_New C unmarshal (fl_configFile fl) w of
        (Inl err, w1) \<Rightarrow> (Inl (FailedToUnmarshalConfigFile err), lg0, w1, v)
      | (Inr cfg, w1) \<Rightarrow>
     (let lg1 = lg0 @ logIsolationSegments cfg;
          w2 = w1\<lparr>rw_monitor := Monitor_New (cfg_HaProxyPidFile cfg)\<rparr>;
          reloaderRunner = CommandRunner_Run script (CreateCommandRunner (fl_haproxyReloader fl)) in
      case NewConfigurer (fl_tcpLoadBalancer fl) (fl_tcpLoadBalancerBaseCfg fl) (fl_tcpLoadBalancerCfg fl)
             (Some reloaderRunner) (cfg_BackendTLS cfg) w2 of
        (Inl (msg, err), w3) \<Rightarrow> (Inl (FatalConfigurer msg err), lg1, w3, v)
      | (Inr cnf, w3) \<Rightarrow>
          (case startupChecks fl st cfg v of
             ((Some reason, lg2), v') \<Rightarrow> (Inl reason, lg1 @ lg2, w3, v')
           | ((None, lg2), v') \<Rightarrow>
               if NewTicker (fl_staleRouteCheckInterval fl) \<noteq> Ok () then (Inl NonPositiveTicker, lg1 @ lg2, w3, v')
               else
               (Inr \<lparr>rt_config = cfg, rt_configurer = cnf,
                  rt_updater = NewUpdater NewRoutingTable (wholeSeconds (fl_defaultRouteExpiry fl))
                    (cfg_DrainWaitDuration cfg),
                  rt_pruneInterval = fl_staleRouteCheckInterval fl,
                  rt_members = members fl,
                  rt_routingAPIAddress = routingAPIAddress cfg\<rparr>, lg1 @ lg2, w3, v'))))"

text \<open>The end of the program: the status it exits with, from what the group of processes returns.\<close>

definition exitStatus :: "go_error option \<Rightarrow> nat" where
  "exitStatus err = (case err of Some e \<Rightarrow> 1 | None \<Rightarrow> 0)"

text \<open>\<open>startRoutePruner\<close> over a number of ticks.\<close>

fun startRoutePruner :: "('tag, 'w) services \<Rightarrow> nat \<Rightarrow> 'tag updater \<Rightarrow> 'tag updater" where
  "startRoutePruner S 0 u = u"
| "startRoutePruner S (Suc ticks) u = startRoutePruner S ticks (PruneStaleRoutes S u)"

section \<open>What a started router is like\<close>

lemma NewConfigurer_Inr:
  assumes "NewConfigurer lb base cfg runner tls w = (Inr h, w')"
  shows "h = \<lparr>hc_configMarshaller = (\<lambda>conf tls. fst (Marshal conf tls)), hc_baseConfigFilePath = base,
      hc_configFilePath = cfg, hc_backendTlsCfg = tls, hc_scriptRunner = runner\<rparr>
    \<and> os_world.more w' = os_world.more w"
proof -
  have more: "os_world.more v' = os_world.more v" if "FileExists f v = (b, v')" for f b and v v' :: router_world
    using FileExists_frame(2) [of f v] that by simp
  show ?thesis
    using assms
    by (auto simp: NewConfigurer_def NewHaProxyConfigurer_def Let_def split: if_splits prod.splits sum.splits dest!: more)
qed

lemma checkPorts_exit_iff:
  "fst (checkPorts flag (shouldExit, err)) \<longleftrightarrow> flag \<and> shouldExit \<and> err \<noteq> None"
  by (simp add: checkPorts_def split: option.splits)

lemma startupChecks_None:
  assumes "startupChecks fl st cfg v = ((None, lg), v')"
  shows "fl_defaultRouteExpiry fl \<le> 65535 * second" "fl_staleRouteCheckInterval fl \<le> fl_defaultRouteExpiry fl"
    "unat (fl_tokenFetchExpirationBufferTime fl) < 2 ^ 63"
    "\<not> (fl_routingGroupCheckExit fl \<and> fst (fst (Check (st_Parse st) (st_Endpoints st) (st_PortServices st)
         (cfg_ReservedSystemComponentPorts cfg) v)))"
proof -
  let ?c = "Check (st_Parse st) (st_Endpoints st) (st_PortServices st) (cfg_ReservedSystemComponentPorts cfg) v"
  show "fl_defaultRouteExpiry fl \<le> 65535 * second" "fl_staleRouteCheckInterval fl \<le> fl_defaultRouteExpiry fl"
    "unat (fl_tokenFetchExpirationBufferTime fl) < 2 ^ 63"
    using assms by (auto simp: startupChecks_def split: if_splits)
  have "\<not> fst (checkPorts (fl_routingGroupCheckExit fl) (fst ?c))"
    using assms by (auto simp: startupChecks_def split: if_splits option.splits prod.splits)
  moreover have "snd (fst ?c) \<noteq> None" if "fst (fst ?c)"
    using that by (auto simp: Check_def Let_def split: prod.splits sum.splits if_splits)
  ultimately show "\<not> (fl_routingGroupCheckExit fl \<and> fst (fst ?c))"
    using checkPorts_exit_iff [of "fl_routingGroupCheckExit fl" "fst (fst ?c)" "snd (fst ?c)"] by auto
qed

text \<open>(C29) A router that starts has an accepted configuration; its configurer carries the files and
  TLS settings of flags and configuration and runs the reload script; its table is empty, it
  neither syncs nor drains, and its routes expire after at most 65535 seconds, at an age that the
  interval of the check for stale routes does not exceed; that interval is positive. The processes start in the fixed order,
  the watcher last. It was not told to exit on a conflict of ports that exists.\<close>

theorem started_router:
  assumes "main C unmarshal script fl st w v = (Inr r, lg, w', v')"
  shows "fst (Config_New C unmarshal (fl_configFile fl) w) = Inr (rt_config r)
    \<and> rt_configurer r = with_script script (fl_haproxyReloader fl)
        \<lparr>hc_configMarshaller = (\<lambda>conf tls. fst (Marshal conf tls)),
         hc_baseConfigFilePath = fl_tcpLoadBalancerBaseCfg fl, hc_configFilePath = fl_tcpLoadBalancerCfg fl,
         hc_backendTlsCfg = cfg_BackendTLS (rt_config r), hc_scriptRunner = None\<rparr>
    \<and> rw_monitor w' = Monitor_New (cfg_HaProxyPidFile (rt_config r))
    \<and> table_pairs (up_routingTable (rt_updater r)) = {} \<and> \<not> up_syncing (rt_updater r)
    \<and> \<not> up_isDraining (rt_updater r) \<and> up_defaultTTL (rt_updater r) \<le> 65535
    \<and> 0 < rt_pruneInterval r \<and> rt_pruneInterval r \<le> fl_defaultRouteExpiry fl
    \<and> (\<exists>pre. map fst (rt_members r) = pre @ [''syncer'', ''metricsReporter'', ''monitor'', ''watcher''])
    \<and> \<not> (fl_routingGroupCheckExit fl \<and> fst (fst (Check (st_Parse st) (st_Endpoints st) (st_PortServices st)
            (cfg_ReservedSystemComponentPorts (rt_config r)) v)))"
proof -
  obtain cfg w1 where cfg: "Config_New C unmarshal (fl_configFile fl) w = (Inr cfg, w1)"
    using assms by (cases "Config_New C unmarshal (fl_configFile fl) w") (auto simp: main_def Let_def split: sum.splits)
  define w2 where "w2 = w1\<lparr>rw_monitor := Monitor_New (cfg_HaProxyPidFile cfg)\<rparr>"
  let ?run = "Some (CommandRunner_Run script (CreateCommandRunner (fl_haproxyReloader fl)))"
  obtain cnf w3 where cnf: "NewConfigurer (fl_tcpLoadBalancer fl) (fl_tcpLoadBalancerBaseCfg fl)
      (fl_tcpLoadBalancerCfg fl) ?run (cfg_BackendTLS cfg) w2 = (Inr cnf, w3)"
    using assms by (cases "NewConfigurer (fl_tcpLoadBalancer fl) (fl_tcpLoadBalancerBaseCfg fl)
      (fl_tcpLoadBalancerCfg fl) ?run (cfg_BackendTLS cfg) w2") (auto simp: main_def Let_def cfg w2_def split: sum.splits)
  obtain lg2 where checks: "startupChecks fl st cfg v = ((None, lg2), v')" "0 < fl_staleRouteCheckInterval fl"
    and r: "r = \<lparr>rt_config = cfg, rt_configurer = cnf,
         rt_updater = NewUpdater NewRoutingTable (wholeSeconds (fl_defaultRouteExpiry fl)) (cfg_DrainWaitDuration cfg),
         rt_pruneInterval = fl_staleRouteCheckInterval fl, rt_members = members fl,
         rt_routingAPIAddress = routingAPIAddress cfg\<rparr>" "w' = w3"
    using assms cnf
    by (auto simp: main_def cfg w2_def [symmetric] Let_def NewTicker_def not_less split: prod.splits option.splits if_splits)
  note ok = startupChecks_None [OF checks(1)]
  have "cnf = with_script script (fl_haproxyReloader fl)
        \<lparr>hc_configMarshaller = (\<lambda>conf tls. fst (Marshal conf tls)),
         hc_baseConfigFilePath = fl_tcpLoadBalancerBaseCfg fl, hc_configFilePath = fl_tcpLoadBalancerCfg fl,
         hc_backendTlsCfg = cfg_BackendTLS cfg, hc_scriptRunner = None\<rparr>" "rw_monitor w3 = rw_monitor w2"
    using NewConfigurer_Inr [OF cnf] router_more [of w3 w2] by (simp_all add: with_script_def)
  moreover have "wholeSeconds (fl_defaultRouteExpiry fl) \<le> 65535"
    using ok(1) by (auto simp: wholeSeconds_def second_def)
  moreover have "\<exists>pre. map fst (members fl) = pre @ [''syncer'', ''metricsReporter'', ''monitor'', ''watcher'']"
    by (simp add: members_def Let_def)
  ultimately show ?thesis using ok checks(2) cfg r by (simp add: NewUpdater_def w2_def)
qed

definition sample_flags :: flags where
  "sample_flags = defaultFlags\<lparr>fl_tcpLoadBalancerBaseCfg := ''base'', fl_tcpLoadBalancerCfg := ''cfg'',
     fl_configFile := ''cfg'', fl_routingGroupCheckExit := True\<rparr>"

definition sample_startup :: "(unit, u16 \<times> u16, nat) startup" where
  "sample_startup =
     \<lparr>st_DropsondeInitialize = (\<lambda>dest origin. None), st_NewTokenFetcher = (\<lambda>disabled uaa retries interval buffer. None),
      st_FetchKey = None, st_TlsConfig = (\<lambda>crt key ca. None), st_Parse = (\<lambda>_. ([(1024, 1123)], None)), st_Endpoints = id,
      st_PortServices = \<lparr>pc_FetchToken = (\<lambda>force v. (Inr ''token'', Suc v)), pc_SetToken = (\<lambda>token v. v),
        pc_RouterGroups = (\<lambda>v. (Inr [\<lparr>rg_Name = ''default'', rg_ReservablePorts = ()\<rparr>], v))\<rparr>\<rparr>"

lemma sample_flag_fields:
  "fl_configFile sample_flags = ''cfg''" "fl_tcpLoadBalancer sample_flags = ''HAProxy''"
  "fl_tcpLoadBalancerBaseCfg sample_flags = ''base''" "fl_tcpLoadBalancerCfg sample_flags = ''cfg''"
  "fl_staleRouteCheckInterval sample_flags = 30 * second"
  by (simp_all add: sample_flags_def defaultFlags_def HaProxyConfigurer_def)

lemma sample_check:
  "Check (st_Parse sample_startup) (st_Endpoints sample_startup) (st_PortServices sample_startup) [] 0 = ((False, None), 1)"
  by (simp add: Check_def getRouterGroups_def validateRouterGroups_def sample_startup_def numeral_3_eq_3 Let_def)

lemma sample_checks:
  assumes "cfg_ReservedSystemComponentPorts cfg = []"
  shows "startupChecks sample_flags sample_startup cfg 0 = ((None, [PortCheck PortCheckSuccess]), 1)"
proof -
  have "st_NewTokenFetcher sample_startup = (\<lambda>disabled uaa retries interval buffer. None)" "st_FetchKey sample_startup = None"
      "st_TlsConfig sample_startup = (\<lambda>crt key ca. None)"
    by (simp_all add: sample_startup_def)
  then show ?thesis
    using assms sample_check
    by (simp add: startupChecks_def sample_flags_def defaultFlags_def checkPorts_def second_def)
qed

theorem started_router_witness:
  "\<exists>(r :: nat started) lg w'. main sample_crypto (\<lambda>_ c. Inr (Some (c\<lparr>cfg_HaProxyPidFile := ''pid''\<rparr>))) (\<lambda>path env files. (None, files))
       sample_flags sample_startup sample_world 0 = (Inr r, lg, w', 1)
     \<and> up_defaultTTL (rt_updater r) \<le> 65535 \<and> rw_monitor w' = Monitor_New ''pid''"
proof -
  let ?m = "main sample_crypto (\<lambda>_ c. Inr (Some (c\<lparr>cfg_HaProxyPidFile := ''pid''\<rparr>))) (\<lambda>path env files. (None, files))
       sample_flags sample_startup sample_world 0"
  have "\<exists>(r :: nat started) lg w'. ?m = (Inr r, lg, w', 1) \<and> cfg_HaProxyPidFile (rt_config r) = ''pid''"
    by (simp add: main_def sample_checks Config_New_def initConfigFromFile_def emptyConfig_def NewConfigurer_def NewHaProxyConfigurer_def
        HaProxyConfigurer_def sample_world_def sample_flag_fields NewTicker_def second_def Let_def)
  then obtain r lg w' where r: "?m = (Inr (r :: nat started), lg, w', 1)" "cfg_HaProxyPidFile (rt_config r) = ''pid''" by blast
  show ?thesis using started_router [OF r(1)] r by (intro exI [of _ r] exI [of _ lg] exI [of _ w']) simp
qed

end
