(* ===== verification/Command_Line.thy ===== *)
theory Command_Line
  imports Main_Program
begin

text \<open>
  The command line of the program: \<open>flag.Parse\<close> of the standard library over the flags that
  \<open>main.go\<close> defines, and the arguments that \<open>testrunner/runner.go\<close> starts the program with.

  \<open>time.ParseDuration\<close> is modelled except for the floating point product it uses for the digits
  after a decimal point, which is the parameter \<open>vp_fraction\<close>; \<open>strconv.ParseInt\<close> and
  \<open>strconv.ParseUint\<close> with base 0 are the parameters \<open>vp_ParseInt\<close> and \<open>vp_ParseUint\<close>. Flags that
  other packages define (\<open>lagerflags\<close>, \<open>debugserver\<close>) are the parameter \<open>other\<close>: what setting such
  a flag to a value does.
\<close>

section \<open>Durations\<close>

record value_parsers =
  vp_ParseInt :: "string \<Rightarrow> int option"
  vp_ParseUint :: "string \<Rightarrow> nat option"
  vp_fraction :: "string \<Rightarrow> nat \<Rightarrow> nat"

definition unitMap :: "(string \<times> nat) list" where
  "unitMap = [(''ns'', 1), (''us'', 1000), ([CHR 0xC2, CHR 0xB5, CHR ''s''], 1000),
     ([CHR 0xCE, CHR 0xBC, CHR ''s''], 1000), (''ms'', 1000000), (''s'', 1000000000),
     (''m'', 60000000000), (''h'', 3600000000000)]"

fun leadingInt :: "nat \<Rightarrow> string \<Rightarrow> (nat \<times> string) option" where
  "leadingInt x [] = Some (x, [])"
| "leadingInt x (c # cs) =
     (if \<not> is_digit c then Some (x, c # cs)
      else if x > 2 ^ 63 div 10 then None
      else let x1 = x * 10 + digit_val c in if x1 > 2 ^ 63 then None else leadingInt x1 cs)"

definition unit_char :: "char \<Rightarrow> bool" where "unit_char c \<longleftrightarrow> c \<noteq> CHR ''.'' \<and> \<not> is_digit c"

text \<open>One round of the loop: the value of a number with its unit, and the rest of the text.\<close>

definition durationPart :: "value_parsers \<Rightarrow> string \<Rightarrow> (nat \<times> string) option" where
  "durationPart V s =
     (case leadingInt 0 s of
        None \<Rightarrow> None
      | Some (v, s1) \<Rightarrow>
          let pre = (length s1 \<noteq> length s);
              point = (s1 \<noteq> [] \<and> hd s1 = CHR ''.'');
              frac = (if point then takeWhile is_digit (tl s1) else []);
              s2 = (if point then dropWhile is_digit (tl s1) else s1);
              u = takeWhile unit_char s2 in
          if \<not> pre \<and> frac = [] then None
          else if u = [] then None
          else case map_of unitMap u of
                 None \<Rightarrow> None
               | Some unit \<Rightarrow>
                   if v > 2 ^ 63 div unit then None
                   else let v1 = v * unit + (if \<exists>c \<in> set frac. c \<noteq> CHR ''0'' then vp_fraction V frac unit else 0)
                        in if v1 > 2 ^ 63 then None else Some (v1, dropWhile unit_char s2))"

lemma leadingInt_length: "leadingInt x s = Some (v, s1) \<Longrightarrow> length s1 \<le> length s"
  by (induction x s rule: leadingInt.induct) (auto simp: Let_def split: if_splits)

lemma length_dropWhile_less: "takeWhile P xs \<noteq> [] \<Longrightarrow> length (dropWhile P xs) < length xs"
  by (metis add_less_cancel_right append_Nil length_append length_greater_0_conv less_add_same_cancel2 takeWhile_dropWhile_id)

lemma durationPart_shorter:
  assumes "durationPart V s = Some (v, s')"
  shows "length s' < length s"
proof -
  obtain x s1 where li: "leadingInt 0 s = Some (x, s1)"
    using assms by (auto simp: durationPart_def split: option.splits)
  define s2 where "s2 = (if s1 \<noteq> [] \<and> hd s1 = CHR ''.'' then dropWhile is_digit (tl s1) else s1)"
  have "takeWhile unit_char s2 \<noteq> []" "s' = dropWhile unit_char s2"
    using assms li by (auto simp: durationPart_def s2_def Let_def split: option.splits if_splits)
  then have "length s' < length s2" using length_dropWhile_less [of unit_char s2] by simp
  also have "length s2 \<le> length s1"
    using length_dropWhile_le [of is_digit "tl s1"] by (auto simp: s2_def)
  also have "length s1 \<le> length s" by (rule leadingInt_length [OF li])
  finally show ?thesis .
qed

function durationLoop :: "value_parsers \<Rightarrow> nat \<Rightarrow> string \<Rightarrow> nat option" where
  "durationLoop V d s =
     (if s = [] then Some d
      else case durationPart V s of
        None \<Rightarrow> None
      | Some (v, s') \<Rightarrow>
          let d1 = (d + v) mod 2 ^ 64 in if d1 > 2 ^ 63 then None else durationLoop V d1 s')"
  by auto
termination by (relation "measure (\<lambda>(V, d, s). length s)") (auto dest: durationPart_shorter)

declare durationLoop.simps [simp del]

definition ParseDuration :: "value_parsers \<Rightarrow> string \<Rightarrow> duration option" where
  "ParseDuration V s =
     (let neg = (s \<noteq> [] \<and> hd s = CHR ''-'');
          s1 = (if s \<noteq> [] \<and> (hd s = CHR ''-'' \<or> hd s = CHR ''+'') then tl s else s) in
      if s1 = ''0'' then Some 0
      else if s1 = [] then None
      else case durationLoop V 0 s1 of
             None \<Rightarrow> None
           | Some d \<Rightarrow> if neg then Some (wrap64 (- int d))
                       else if d > 2 ^ 63 - 1 then None else Some (int d))"

definition ParseBool :: "string \<Rightarrow> bool option" where
  "ParseBool s =
     (if s \<in> {''1'', ''t'', ''T'', ''true'', ''TRUE'', ''True''} then Some True
      else if s \<in> {''0'', ''f'', ''F'', ''false'', ''FALSE'', ''False''} then Some False
      else None)"

definition FormatBool :: "bool \<Rightarrow> string" where
  "FormatBool b = (if b then ''true'' else ''false'')"

section \<open>Flags\<close>

datatype flag_error = BadFlagSyntax string | NotDefined string | HelpRequested | NeedsArgument string | InvalidValue string string

type_synonym other_flags = "string \<Rightarrow> (string \<Rightarrow> flags \<Rightarrow> flags option) option"

text \<open>Setting a flag; \<open>None\<close> if there is none of that name, and an inner \<open>None\<close> if the value is not
  one of its type.\<close>

definition setFlag :: "value_parsers \<Rightarrow> other_flags \<Rightarrow> string \<Rightarrow> string \<Rightarrow> flags \<Rightarrow> flags option option" where
  "setFlag V other name value fl =
     (if name = ''tcpLoadBalancer'' then Some (Some (fl\<lparr>fl_tcpLoadBalancer := value\<rparr>))
      else if name = ''tcpLoadBalancerBaseConfig'' then Some (Some (fl\<lparr>fl_tcpLoadBalancerBaseCfg := value\<rparr>))
      else if name = ''tcpLoadBalancerConfig'' then Some (Some (fl\<lparr>fl_tcpLoadBalancerCfg := value\<rparr>))
      else if name = ''tcpLoadBalancerStatsUnixSocket''
      then Some (Some (fl\<lparr>fl_tcpLoadBalancerStatsUnixSocket := value\<rparr>))
      else if name = ''subscriptionRetryInterval''
      then Some (map_option (\<lambda>n. fl\<lparr>fl_subscriptionRetryInterval := n\<rparr>) (vp_ParseInt V value))
      else if name = ''config'' then Some (Some (fl\<lparr>fl_configFile := value\<rparr>))
      else if name = ''routingGroupCheckExit''
      then Some (map_option (\<lambda>b. fl\<lparr>fl_routingGroupCheckExit := b\<rparr>) (ParseBool value))
      else if name = ''haproxyReloader'' then Some (Some (fl\<lparr>fl_haproxyReloader := value\<rparr>))
      else if name = ''syncInterval''
      then Some (map_option (\<lambda>d. fl\<lparr>fl_syncInterval := d\<rparr>) (ParseDuration V value))
      else if name = ''tokenFetchMaxRetries''
      then Some (map_option (\<lambda>n. fl\<lparr>fl_tokenFetchMaxRetries := n\<rparr>) (vp_ParseUint V value))
      else if name = ''tokenFetchRetryInterval''
      then Some (map_option (\<lambda>d. fl\<lparr>fl_tokenFetchRetryInterval := d\<rparr>) (ParseDuration V value))
      else if name = ''tokenFetchExpirationBufferTime''
      then Some (map_option (\<lambda>n. fl\<lparr>fl_tokenFetchExpirationBufferTime := of_nat n\<rparr>) (vp_ParseUint V value))
      else if name = ''statsCollectionInterval''
      then Some (map_option (\<lambda>d. fl\<lparr>fl_statsCollectionInterval := d\<rparr>) (ParseDuration V value))
      else if name = ''dropsondePort''
      then Some (map_option (\<lambda>n. fl\<lparr>fl_dropsondePort := n\<rparr>) (vp_ParseInt V value))
      else if name = ''staleRouteCheckInterval''
      then Some (map_option (\<lambda>d. fl\<lparr>fl_staleRouteCheckInterval := d\<rparr>) (ParseDuration V value))
      else if name = ''defaultRouteExpiry''
      then Some (map_option (\<lambda>d. fl\<lparr>fl_defaultRouteExpiry := d\<rparr>) (ParseDuration V value))
      else map_option (\<lambda>set. set value fl) (other name))"

definition isBoolFlag :: "string \<Rightarrow> bool" where
  "isBoolFlag name \<longleftrightarrow> name = ''routingGroupCheckExit''"

datatype argument = NoFlag | Terminator | BadSyntax | AFlag string "string option"

text \<open>The name and the value after the first equals sign that is not the first character.\<close>

definition splitValue :: "string \<Rightarrow> string \<times> string option" where
  "splitValue name =
     (case dropWhile (\<lambda>c. c \<noteq> CHR ''='') (tl name) of
        [] \<Rightarrow> (name, None)
      | eq # value \<Rightarrow> (hd name # takeWhile (\<lambda>c. c \<noteq> CHR ''='') (tl name), Some value))"

definition readArgument :: "string \<Rightarrow> argument" where
  "readArgument s =
     (if length s < 2 \<or> hd s \<noteq> CHR ''-'' then NoFlag
      else if s = ''--'' then Terminator
      else let name = (if hd (tl s) = CHR ''-'' then tl (tl s) else tl s) in
        if name = [] \<or> hd name = CHR ''-'' \<or> hd name = CHR ''='' then BadSyntax
        else let (n, v) = splitValue name in AFlag n v)"

fun flagParse ::
  "value_parsers \<Rightarrow> other_flags \<Rightarrow> string list \<Rightarrow> flags \<Rightarrow> flag_error + flags \<times> string list" where
  "flagParse V other [] fl = Inr (fl, [])"
| "flagParse V other (s # rest) fl =
     (case readArgument s of
        NoFlag \<Rightarrow> Inr (fl, s # rest)
      | Terminator \<Rightarrow> Inr (fl, rest)
      | BadSyntax \<Rightarrow> Inl (BadFlagSyntax s)
      | AFlag name v \<Rightarrow>
          if isBoolFlag name then
            (let value = (case v of Some value \<Rightarrow> value | None \<Rightarrow> ''true'') in
             case setFlag V other name value fl of
               None \<Rightarrow> Inl (NotDefined name)
             | Some None \<Rightarrow> Inl (InvalidValue value name)
             | Some (Some fl') \<Rightarrow> flagParse V other rest fl')
          else if setFlag V other name [] fl = None
          then Inl (if name = ''help'' \<or> name = ''h'' then HelpRequested else NotDefined name)
          else
            (case v of
               Some value \<Rightarrow>
                 (case setFlag V other name value fl of
                    Some (Some fl') \<Rightarrow> flagParse V other rest fl'
                  | _ \<Rightarrow> Inl (InvalidValue value name))
             | None \<Rightarrow>
                 (case rest of
                    [] \<Rightarrow> Inl (NeedsArgument name)
                  | value # rest' \<Rightarrow>
                      (case setFlag V other name value fl of
                         Some (Some fl') \<Rightarrow> flagParse V other rest' fl'
                       | _ \<Rightarrow> Inl (InvalidValue value name)))))"

section \<open>The arguments of the test runner\<close>

record Args =
  ar_BaseLoadBalancerConfigFilePath :: string
  ar_LoadBalancerConfigFilePath :: string
  ar_ConfigFilePath :: string
  ar_RoutingGroupCheckExit :: bool

definition ArgSlice :: "Args \<Rightarrow> string list" where
  "ArgSlice args =
     [''-tcpLoadBalancerConfig='' @ ar_LoadBalancerConfigFilePath args,
      ''-tcpLoadBalancerBaseConfig='' @ ar_BaseLoadBalancerConfigFilePath args,
      ''-haproxyReloader=fixtures/fake_haproxy_reloader'',
      ''-config='' @ ar_ConfigFilePath args,
      ''-tokenFetchRetryInterval'', ''1s'',
      ''-staleRouteCheckInterval'', ''5s'',
      ''-logLevel=debug'',
      ''-syncInterval'', ''1s'',
      ''-routingGroupCheckExit='' @ FormatBool (ar_RoutingGroupCheckExit args),
      ''-timeFormat'', ''rfc3339'']"

record ginkgomon_config =
  gc_Name :: string
  gc_AnsiColorCode :: string
  gc_StartCheck :: string
  gc_StartCheckTimeout :: duration
  gc_Command :: "string \<times> string list"

definition Runner_New :: "string \<Rightarrow> Args \<Rightarrow> ginkgomon_config" where
  "Runner_New binPath args =
     \<lparr>gc_Name = ''tcp-router'', gc_AnsiColorCode = ''1;97m'', gc_StartCheck = ''tcp-router.started'',
      gc_StartCheckTimeout = 10 * second, gc_Command = (binPath, ArgSlice args)\<rparr>"

section \<open>Reading back what was written\<close>

lemma leadingInt_append:
  assumes "leadingInt x s = Some (v, [])"
  shows "leadingInt x (s @ t) = leadingInt v t"
  using assms by (induction x s rule: leadingInt.induct) (auto simp: Let_def split: if_splits)

lemma leadingInt_showNat: "n \<le> 2 ^ 63 \<Longrightarrow> leadingInt 0 (showNat n) = Some (n, [])"
proof (induction n rule: showNat.induct)
  case (1 n)
  show ?case
  proof (cases "n < 10")
    case True
    then show ?thesis by (subst showNat.simps) simp
  next
    case False
    then have "leadingInt 0 (showNat (n div 10)) = Some (n div 10, [])" using 1 by simp
    moreover have "n div 10 \<le> 2 ^ 63 div 10" using "1.prems" by (rule div_le_mono)
    moreover have "n div 10 * 10 + n mod 10 = n" by simp
    ultimately show ?thesis
      using False "1.prems" by (subst showNat.simps) (simp add: leadingInt_append Let_def)
  qed
qed

lemma unit_s: "takeWhile unit_char ''s'' = ''s''" "dropWhile unit_char ''s'' = ''''"
  by (simp_all add: unit_char_def is_digit_def)

lemma durationPart_seconds:
  assumes "n \<le> 9223372036"
  shows "durationPart V (showNat n @ ''s'') = Some (n * 1000000000, [])"
proof -
  have "leadingInt 0 (showNat n @ ''s'') = Some (n, ''s'')"
    using leadingInt_append [OF leadingInt_showNat, of n "''s''"] assms by (simp add: is_digit_def)
  then show ?thesis using assms by (simp add: durationPart_def unit_s unitMap_def del: takeWhile.simps dropWhile.simps)
qed

text \<open>Every whole number of seconds that a duration can hold is read back from its text.\<close>

lemma ParseDuration_seconds:
  assumes "n \<le> 9223372036"
  shows "ParseDuration V (showNat n @ ''s'') = Some (int n * second)"
proof -
  have d: "is_digit (hd (showNat n))" using showNat_digits [of "hd (showNat n)" n] by simp
  then have "hd (showNat n) \<noteq> CHR ''-''" "hd (showNat n) \<noteq> CHR ''+''" by (auto simp: is_digit_def)
  moreover have "last (showNat n @ ''s'') \<noteq> last ''0''" by simp
  then have "showNat n @ ''s'' \<noteq> ''0''" by fastforce
  moreover have "durationLoop V 0 (showNat n @ ''s'') = Some (n * 1000000000)"
    using assms durationPart_seconds [OF assms, of V]
    by (simp add: durationLoop.simps [of V 0 "showNat n @ ''s''"] durationLoop.simps [of V "n * 1000000000" "[]"])
  ultimately show ?thesis
    using assms by (simp add: ParseDuration_def Let_def second_def hd_append)
qed

lemma ParseBool_FormatBool: "ParseBool (FormatBool b) = Some b"
  by (simp add: ParseBool_def FormatBool_def)

lemma while_not_char:
  assumes "x \<notin> set xs"
  shows "takeWhile (\<lambda>c. c \<noteq> x) (xs @ x # ys) = xs" "dropWhile (\<lambda>c. c \<noteq> x) (xs @ x # ys) = x # ys"
    "dropWhile (\<lambda>c. c \<noteq> x) xs = []"
  using assms by (induction xs) auto

lemma splitValue_eq: "CHR ''='' \<notin> set name \<Longrightarrow> splitValue (c # name @ CHR ''='' # v) = (c # name, Some v)"
  by (simp add: splitValue_def while_not_char)

lemma splitValue_plain: "CHR ''='' \<notin> set name \<Longrightarrow> splitValue (c # name) = (c # name, None)"
  by (simp add: splitValue_def while_not_char)

lemma readArgument_flag:
  assumes "c \<noteq> CHR ''-''" "c \<noteq> CHR ''=''" "CHR ''='' \<notin> set name"
  shows "readArgument (CHR ''-'' # c # name @ CHR ''='' # v) = AFlag (c # name) (Some v)"
    "readArgument (CHR ''-'' # c # name) = AFlag (c # name) None"
  using assms splitValue_eq [of name c v] splitValue_plain [of name c] by (simp_all add: readArgument_def Let_def)

lemma flagParse_value:
  assumes "readArgument s = AFlag name (Some v)" "\<not> isBoolFlag name" "setFlag V other name [] fl \<noteq> None"
    "setFlag V other name v fl = Some (Some fl')"
  shows "flagParse V other (s # rest) fl = flagParse V other rest fl'"
  using assms by auto

lemma flagParse_next:
  assumes "readArgument s = AFlag name None" "\<not> isBoolFlag name" "setFlag V other name [] fl \<noteq> None"
    "setFlag V other name v fl = Some (Some fl')"
  shows "flagParse V other (s # v # rest) fl = flagParse V other rest fl'"
  using assms by auto

lemma flagParse_bool:
  assumes "readArgument s = AFlag name (Some v)" "isBoolFlag name" "setFlag V other name v fl = Some (Some fl')"
  shows "flagParse V other (s # rest) fl = flagParse V other rest fl'"
  using assms by auto

lemmas flag_defs = readArgument_def splitValue_def isBoolFlag_def setFlag_def

lemma seconds_text: "ParseDuration V ''1s'' = Some second" "ParseDuration V ''5s'' = Some (5 * second)"
proof -
  have "showNat 1 = ''1''" "showNat 5 = ''5''" by code_simp+
  then show "ParseDuration V ''1s'' = Some second" "ParseDuration V ''5s'' = Some (5 * second)"
    using ParseDuration_seconds [of 1 V] ParseDuration_seconds [of 5 V] by simp_all
qed

definition testFlags :: "Args \<Rightarrow> flags" where
  "testFlags args = defaultFlags\<lparr>
     fl_tcpLoadBalancerCfg := ar_LoadBalancerConfigFilePath args,
     fl_tcpLoadBalancerBaseCfg := ar_BaseLoadBalancerConfigFilePath args,
     fl_haproxyReloader := ''fixtures/fake_haproxy_reloader'',
     fl_configFile := ar_ConfigFilePath args,
     fl_tokenFetchRetryInterval := second,
     fl_staleRouteCheckInterval := 5 * second,
     fl_syncInterval := second,
     fl_routingGroupCheckExit := ar_RoutingGroupCheckExit args\<rparr>"

text \<open>(C36) The program reads back from its command line exactly the settings the test runner wrote
  there, whatever the paths contain (equals signs, dashes, nothing at all); every other flag keeps
  its default value, no argument is left over, and the intervals pass the checks at the start.
  The flags \<open>logLevel\<close> and \<open>timeFormat\<close> belong to \<open>lagerflags\<close>, which accepts these values and
  leaves the flags of the program alone.\<close>

theorem args_roundtrip:
  assumes "other ''logLevel'' = Some level" "\<And>fl. level ''debug'' fl = Some fl"
    and "other ''timeFormat'' = Some format" "\<And>fl. format ''rfc3339'' fl = Some fl"
  shows "flagParse V other (snd (gc_Command (Runner_New binPath args))) defaultFlags = Inr (testFlags args, [])
    \<and> fl_staleRouteCheckInterval (testFlags args) \<le> fl_defaultRouteExpiry (testFlags args)
    \<and> fl_defaultRouteExpiry (testFlags args) \<le> 65535 * second"
proof -
  let ?p = "flagParse V other"
  let ?f1 = "defaultFlags\<lparr>fl_tcpLoadBalancerCfg := ar_LoadBalancerConfigFilePath args\<rparr>"
  let ?f2 = "?f1\<lparr>fl_tcpLoadBalancerBaseCfg := ar_BaseLoadBalancerConfigFilePath args\<rparr>"
  let ?f3 = "?f2\<lparr>fl_haproxyReloader := ''fixtures/fake_haproxy_reloader''\<rparr>"
  let ?f4 = "?f3\<lparr>fl_configFile := ar_ConfigFilePath args\<rparr>"
  let ?f5 = "?f4\<lparr>fl_tokenFetchRetryInterval := second\<rparr>"
  let ?f6 = "?f5\<lparr>fl_staleRouteCheckInterval := 5 * second\<rparr>"
  let ?f7 = "?f6\<lparr>fl_syncInterval := second\<rparr>"
  let ?f8 = "?f7\<lparr>fl_routingGroupCheckExit := ar_RoutingGroupCheckExit args\<rparr>"
  have "?p ((''-tcpLoadBalancerConfig='' @ v) # r) fl = ?p r (fl\<lparr>fl_tcpLoadBalancerCfg := v\<rparr>)" for v r fl
    by (rule flagParse_value [of _ "''tcpLoadBalancerConfig''" v]) (simp_all add: flag_defs)
  moreover have "?p ((''-tcpLoadBalancerBaseConfig='' @ v) # r) fl = ?p r (fl\<lparr>fl_tcpLoadBalancerBaseCfg := v\<rparr>)" for v r fl
    by (rule flagParse_value [of _ "''tcpLoadBalancerBaseConfig''" v]) (simp_all add: flag_defs)
  moreover have "?p ((''-haproxyReloader='' @ v) # r) fl = ?p r (fl\<lparr>fl_haproxyReloader := v\<rparr>)" for v r fl
    by (rule flagParse_value [of _ "''haproxyReloader''" v]) (simp_all add: flag_defs)
  moreover have "?p ((''-config='' @ v) # r) fl = ?p r (fl\<lparr>fl_configFile := v\<rparr>)" for v r fl
    by (rule flagParse_value [of _ "''config''" v]) (simp_all add: flag_defs)
  moreover have "?p (''-tokenFetchRetryInterval'' # ''1s'' # r) fl = ?p r (fl\<lparr>fl_tokenFetchRetryInterval := second\<rparr>)" for r fl
    by (rule flagParse_next [of _ "''tokenFetchRetryInterval''"]) (simp_all add: flag_defs seconds_text)
  moreover have "?p (''-staleRouteCheckInterval'' # ''5s'' # r) fl = ?p r (fl\<lparr>fl_staleRouteCheckInterval := 5 * second\<rparr>)" for r fl
    by (rule flagParse_next [of _ "''staleRouteCheckInterval''"]) (simp_all add: flag_defs seconds_text)
  moreover have "?p (''-logLevel=debug'' # r) fl = ?p r fl" for r fl
    by (rule flagParse_value [of _ "''logLevel''" "''debug''"]) (simp_all add: flag_defs assms)
  moreover have "?p (''-syncInterval'' # ''1s'' # r) fl = ?p r (fl\<lparr>fl_syncInterval := second\<rparr>)" for r fl
    by (rule flagParse_next [of _ "''syncInterval''"]) (simp_all add: flag_defs seconds_text)
  moreover have "?p ((''-routingGroupCheckExit='' @ FormatBool b) # r) fl = ?p r (fl\<lparr>fl_routingGroupCheckExit := b\<rparr>)" for b r fl
    by (rule flagParse_bool [of _ "''routingGroupCheckExit''" "FormatBool b"]) (simp_all add: flag_defs ParseBool_FormatBool)
  moreover have "?p (''-timeFormat'' # ''rfc3339'' # r) fl = ?p r fl" for r fl
    by (rule flagParse_next [of _ "''timeFormat''"]) (simp_all add: flag_defs assms)
  ultimately have "?p (ArgSlice args) defaultFlags = Inr (?f8, [])"
    by (simp add: ArgSlice_def del: flagParse.simps(2))
  then show ?thesis by (simp add: testFlags_def Runner_New_def defaultFlags_def second_def)
qed

theorem args_roundtrip_witness:
  "let args = \<lparr>ar_BaseLoadBalancerConfigFilePath = ''b=1'', ar_LoadBalancerConfigFilePath = ''-x'',
       ar_ConfigFilePath = '''', ar_RoutingGroupCheckExit = True\<rparr>;
     other = [''logLevel'' \<mapsto> (\<lambda>v fl. Some fl), ''timeFormat'' \<mapsto> (\<lambda>v fl. Some fl)];
     V = \<lparr>vp_ParseInt = (\<lambda>s. None), vp_ParseUint = (\<lambda>s. None), vp_fraction = (\<lambda>s u. 0)\<rparr>
   in flagParse V other (ArgSlice args) defaultFlags = Inr (testFlags args, [])
      \<and> fl_tcpLoadBalancerBaseCfg (testFlags args) = ''b=1''"
  using args_roundtrip [of "[''logLevel'' \<mapsto> (\<lambda>v fl. Some fl), ''timeFormat'' \<mapsto> (\<lambda>v fl. Some fl)]"]
  by (simp add: testFlags_def Runner_New_def Let_def)

end
