(* ===== verification/Child_Reaper.thy ===== *)
theory Child_Reaper
  imports Haproxy_Configurer "HOL-Library.AList"
begin

text \<open>
  The goroutine of \<open>main.go\<close> that reaps child processes, beside the runs of the reload script
  (\<open>runnerCmd.CombinedOutput\<close> of \<open>configurer/haproxy/script_runner.go\<close>) and the children the
  router adopts as the first process of a container.

  The kernel keeps the children that no \<open>wait\<close> has collected; a dead one is a zombie with its exit
  status. On its way to the reaper a SIGCHLD is pending in three places, each with room for one:
  in the kernel, where standard signals do not queue; in the Go runtime, whose handler sets one bit
  per signal; and in the channel of capacity 1, to which \<open>signal.Notify\<close> sends without blocking. A
  signal that finds its next place taken is merged with the one there and lost. Taking a signal from
  the kernel and noting it in the runtime is one step here.

  \<open>Wait4(-1, \<dots>, WNOHANG)\<close> collects one zombie of the kernel's choice, here the number \<open>n\<close> of the
  step; \<open>CombinedOutput\<close> waits for the process it started and fails when that is not a child any
  more, with the name of whichever system call the \<open>os\<close> package used. Numbers of processes are not
  reused within an execution.
\<close>

section \<open>The kernel\<close>

datatype proc_state = Alive | Zombie "go_error option"

type_synonym children = "(nat \<times> proc_state) list"

fun is_zombie :: "proc_state \<Rightarrow> bool" where
  "is_zombie (Zombie status) = True"
| "is_zombie Alive = False"

definition zombies :: "children \<Rightarrow> nat list" where
  "zombies cs = map fst (filter (\<lambda>c. is_zombie (snd c)) cs)"

datatype wait4_result = Collected nat | NothingDead | WaitFailed go_error

definition no_child :: go_error where "no_child = ''no child processes''"

definition Wait4_any :: "nat \<Rightarrow> children \<Rightarrow> wait4_result \<times> children" where
  "Wait4_any n cs =
     (if cs = [] then (WaitFailed no_child, cs)
      else case zombies cs of
        [] \<Rightarrow> (NothingDead, cs)
      | zs \<Rightarrow> let p = zs ! (n mod length zs) in (Collected p, AList.delete p cs))"

section \<open>The goroutines\<close>

datatype child_signal = SIGCHLD | NotSIGCHLD

text \<open>Where the reaper is: at the receive from \<open>signalChannel\<close>, or at the call of \<open>Wait4\<close>.\<close>

datatype reaper_pc = AtReceive | AtWait4

record child_sys =
  cs_children :: children
  cs_kernelPending :: bool
  cs_runtimePending :: bool
  cs_signalChannel :: "child_signal option"
  cs_reaper :: reaper_pc
  cs_log :: "go_error list"
  cs_waiting :: "nat list"
  cs_exited :: "(nat \<times> go_error option) list"
  cs_results :: "(nat \<times> go_error option) list"

text \<open>\<open>cs_waiting\<close>: the scripts that \<open>CombinedOutput\<close> has started and not yet returned for;
  \<open>cs_exited\<close> and \<open>cs_results\<close> record how each process ended and what \<open>CombinedOutput\<close> returned.\<close>

definition receiveSignal :: "child_sys \<Rightarrow> child_sys" where
  "receiveSignal s =
     (case cs_signalChannel s of
        None \<Rightarrow> s
      | Some sig \<Rightarrow> s\<lparr>cs_signalChannel := None,
                       cs_reaper := (if sig = SIGCHLD then AtWait4 else AtReceive)\<rparr>)"

definition reapChild :: "nat \<Rightarrow> child_sys \<Rightarrow> child_sys" where
  "reapChild n s =
     (let (result, children') = Wait4_any n (cs_children s);
          logged = (case result of WaitFailed err \<Rightarrow> cs_log s @ [err] | _ \<Rightarrow> cs_log s)
      in s\<lparr>cs_children := children', cs_log := logged, cs_reaper := AtReceive\<rparr>)"

definition childExits :: "nat \<Rightarrow> go_error option \<Rightarrow> child_sys \<Rightarrow> child_sys" where
  "childExits p status s =
     s\<lparr>cs_children := AList.update p (Zombie status) (cs_children s),
       cs_exited := cs_exited s @ [(p, status)],
       cs_kernelPending := True\<rparr>"

text \<open>The runtime's send to the channel that \<open>signal.Notify\<close> was given.\<close>

definition notifySignal :: "child_sys \<Rightarrow> child_sys" where
  "notifySignal s =
     s\<lparr>cs_runtimePending := False,
       cs_signalChannel := (case cs_signalChannel s of None \<Rightarrow> Some SIGCHLD | Some sig \<Rightarrow> Some sig)\<rparr>"

text \<open>The end of \<open>CombinedOutput\<close>: \<open>None\<close> while the process still runs; \<open>call\<close> is the system call that
  the error for a process that is gone names.\<close>

definition wait_error :: "string \<Rightarrow> go_error" where "wait_error call = call @ '': '' @ no_child"

definition cmdWait :: "string \<Rightarrow> nat \<Rightarrow> child_sys \<Rightarrow> child_sys option" where
  "cmdWait call p s =
     (let returned = (\<lambda>r. s\<lparr>cs_waiting := removeAll p (cs_waiting s), cs_results := cs_results s @ [(p, r)],
                           cs_children := AList.delete p (cs_children s)\<rparr>)
      in case map_of (cs_children s) p of
           Some Alive \<Rightarrow> None
         | Some (Zombie status) \<Rightarrow> Some (returned status)
         | None \<Rightarrow> Some (returned (Some (wait_error call))))"

datatype child_label = Started nat | Adopted nat | Exited nat bool | Stopped nat | Delivered bool | Notified bool
  | ReceivedSignal | Reaped nat | CmdReturned nat

text \<open>The flags of \<open>Exited\<close>, \<open>Delivered\<close> and \<open>Notified\<close> say whether a signal was lost. A child that is
  stopped raises the signal too.\<close>

inductive rstep :: "child_sys \<Rightarrow> child_label \<Rightarrow> child_sys \<Rightarrow> bool" where
  start: "map_of (cs_children s) p = None \<Longrightarrow> p \<notin> fst ` set (cs_exited s) \<Longrightarrow>
    rstep s (Started p) (s\<lparr>cs_children := (p, Alive) # cs_children s, cs_waiting := p # cs_waiting s\<rparr>)"
| adopt: "map_of (cs_children s) p = None \<Longrightarrow> p \<notin> fst ` set (cs_exited s) \<Longrightarrow>
    rstep s (Adopted p) (s\<lparr>cs_children := (p, Alive) # cs_children s\<rparr>)"
| exits: "map_of (cs_children s) p = Some Alive \<Longrightarrow>
    rstep s (Exited p (cs_kernelPending s)) (childExits p status s)"
| stops: "map_of (cs_children s) p = Some Alive \<Longrightarrow> rstep s (Stopped p) (s\<lparr>cs_kernelPending := True\<rparr>)"
| deliver: "cs_kernelPending s \<Longrightarrow>
    rstep s (Delivered (cs_runtimePending s)) (s\<lparr>cs_kernelPending := False, cs_runtimePending := True\<rparr>)"
| notify: "cs_runtimePending s \<Longrightarrow> rstep s (Notified (cs_signalChannel s \<noteq> None)) (notifySignal s)"
| receive: "cs_reaper s = AtReceive \<Longrightarrow> cs_signalChannel s \<noteq> None \<Longrightarrow>
    rstep s ReceivedSignal (receiveSignal s)"
| reap: "cs_reaper s = AtWait4 \<Longrightarrow> rstep s (Reaped n) (reapChild n s)"
| returns: "p \<in> set (cs_waiting s) \<Longrightarrow> cmdWait call p s = Some s' \<Longrightarrow> rstep s (CmdReturned p) s'"

inductive rsteps :: "child_sys \<Rightarrow> child_label list \<Rightarrow> child_sys \<Rightarrow> bool" where
  no_step: "rsteps s [] s"
| a_step: "rsteps s ls s' \<Longrightarrow> rstep s' l s'' \<Longrightarrow> rsteps s (ls @ [l]) s''"

definition child_init :: child_sys where
  "child_init = \<lparr>cs_children = [], cs_kernelPending = False, cs_runtimePending = False, cs_signalChannel = None, cs_reaper = AtReceive, cs_log = [],
     cs_waiting = [], cs_exited = [], cs_results = []\<rparr>"

section \<open>What the reaper achieves\<close>

lemma zombies_simps [simp]:
  "zombies [] = []"
  "zombies ((p, st) # cs) = (if is_zombie st then p # zombies cs else zombies cs)"
  by (simp_all add: zombies_def)

lemma zombies_subset: "set (zombies cs) \<subseteq> fst ` set cs"
  by (auto simp: zombies_def)

lemma zombies_delete: "zombies (AList.delete p cs) = removeAll p (zombies cs)"
  by (induction cs) auto

lemma distinct_zombies: "distinct (map fst cs) \<Longrightarrow> distinct (zombies cs)"
  by (simp add: zombies_def distinct_map_filter)

lemma length_zombies_delete:
  assumes "distinct (map fst cs)"
  shows "length (zombies (AList.delete p cs)) =
    (if p \<in> set (zombies cs) then length (zombies cs) - 1 else length (zombies cs))"
  using distinct_zombies [OF assms]
  by (simp add: zombies_delete distinct_remove1_removeAll [symmetric] length_remove1)

lemma length_zombies_update:
  assumes "map_of cs p = Some Alive"
  shows "length (zombies (AList.update p (Zombie status) cs)) = Suc (length (zombies cs))"
  using assms by (induction cs) (auto split: if_splits)

text \<open>What a step does to the children.\<close>

lemma Wait4_any_cases:
  obtains "cs = []" "Wait4_any n cs = (WaitFailed no_child, cs)"
  | "cs \<noteq> []" "zombies cs = []" "Wait4_any n cs = (NothingDead, cs)"
  | p where "p \<in> set (zombies cs)" "Wait4_any n cs = (Collected p, AList.delete p cs)"
proof (cases "cs = [] \<or> zombies cs = []")
  case True
  then show ?thesis using that(1,2) by (auto simp: Wait4_any_def)
next
  case False
  then have "zombies cs ! (n mod length (zombies cs)) \<in> set (zombies cs)" by simp
  moreover have "Wait4_any n cs = (let p = zombies cs ! (n mod length (zombies cs)) in (Collected p, AList.delete p cs))"
    using False by (auto simp: Wait4_any_def neq_Nil_conv)
  ultimately show ?thesis using that(3) by (simp add: Let_def)
qed

definition script_results_ok :: "child_sys \<Rightarrow> bool" where
  "script_results_ok s \<longleftrightarrow>
     (\<forall>(p, r) \<in> set (cs_results s). (p, r) \<in> set (cs_exited s) \<or> (\<exists>call. r = Some (wait_error call)))"

definition child_inv :: "child_sys \<Rightarrow> bool" where
  "child_inv s \<longleftrightarrow> distinct (map fst (cs_children s))
     \<and> (\<forall>p. map_of (cs_children s) p = Some Alive \<longrightarrow> p \<notin> fst ` set (cs_exited s))
     \<and> (\<forall>p status. map_of (cs_children s) p = Some (Zombie status) \<longrightarrow> (p, status) \<in> set (cs_exited s))
     \<and> cs_signalChannel s \<noteq> Some NotSIGCHLD
     \<and> distinct (map fst (cs_exited s))
     \<and> script_results_ok s"

fun loses_signal :: "child_label \<Rightarrow> bool" where
  "loses_signal (Exited p merged) = merged"
| "loses_signal (Delivered merged) = merged"
| "loses_signal (Notified dropped) = dropped"
| "loses_signal _ = False"

definition lost :: "child_label list \<Rightarrow> nat" where
  "lost ls = length (filter loses_signal ls)"

lemma lost_simps [simp]: "lost [] = 0" "lost (l # ls) = of_bool (loses_signal l) + lost ls" "lost (ls @ ls') = lost ls + lost ls'"
  by (simp_all add: lost_def)

text \<open>The signals on their way to the reaper, and the one it is acting on.\<close>

definition announced :: "child_sys \<Rightarrow> nat" where
  "announced s = of_bool (cs_kernelPending s) + of_bool (cs_runtimePending s) + of_bool (cs_signalChannel s \<noteq> None)
     + of_bool (cs_reaper s = AtWait4)"

lemma same_children: "s\<lparr>cs_children := cs_children s\<rparr> = s"
  by simp

lemma reapChild_cases:
  obtains "reapChild n s = s\<lparr>cs_log := cs_log s @ [no_child], cs_reaper := AtReceive\<rparr>"
      "cs_children s = []"
  | "reapChild n s = s\<lparr>cs_reaper := AtReceive\<rparr>" "cs_children s \<noteq> []" "zombies (cs_children s) = []"
  | p where "p \<in> set (zombies (cs_children s))"
      "reapChild n s = s\<lparr>cs_children := AList.delete p (cs_children s), cs_reaper := AtReceive\<rparr>"
  by (rule Wait4_any_cases [of "cs_children s" n]) (auto simp: reapChild_def same_children)

lemma child_inv_exits:
  assumes "map_of (cs_children s) p = Some Alive" "child_inv s"
  shows "child_inv (childExits p status s)"
proof -
  have "p \<in> fst ` set (cs_children s)" using assms(1) by (metis map_of_eq_None_iff option.distinct(1))
  then show ?thesis
    using assms by (auto simp: child_inv_def childExits_def script_results_ok_def distinct_update update_conv')
qed

lemma child_inv_delete:
  "child_inv s \<Longrightarrow> child_inv (s\<lparr>cs_children := AList.delete p (cs_children s)\<rparr>)"
  by (simp add: child_inv_def script_results_ok_def distinct_delete delete_conv' restrict_map_def)

lemma child_inv_returned:
  assumes "child_inv s" "(p, r) \<in> set (cs_exited s) \<or> (\<exists>call. r = Some (wait_error call))"
  shows "child_inv (s\<lparr>cs_waiting := ws, cs_results := cs_results s @ [(p, r)],
    cs_children := AList.delete p (cs_children s)\<rparr>)"
  using assms by (auto simp: child_inv_def script_results_ok_def distinct_delete delete_conv' restrict_map_def)

lemma child_inv_returns:
  assumes "cmdWait call p s = Some s'" "child_inv s"
  shows "child_inv s'"
proof -
  have "(p, status) \<in> set (cs_exited s)" if "map_of (cs_children s) p = Some (Zombie status)" for status
    using assms(2) that by (simp add: child_inv_def)
  then show ?thesis
    using assms(1) child_inv_returned [OF assms(2)]
    by (auto simp: cmdWait_def Let_def split: option.splits proc_state.splits)
qed

lemma child_inv_reaper [simp]: "child_inv (s\<lparr>cs_reaper := pc\<rparr>) = child_inv s" "child_inv (s\<lparr>cs_log := lg\<rparr>) = child_inv s"
  by (simp_all add: child_inv_def script_results_ok_def)

lemma rstep_inv:
  assumes "rstep s l s'" "child_inv s"
  shows "child_inv s'"
  using assms
proof (induction rule: rstep.induct)
  case (reap s n)
  show ?case
    by (rule reapChild_cases [of n s]) (use reap child_inv_delete in auto)
next
  case (exits s p status)
  then show ?case by (rule child_inv_exits)
next
  case (returns p s call s')
  then show ?case by (metis child_inv_returns)
qed (auto simp: child_inv_def receiveSignal_def notifySignal_def script_results_ok_def map_of_eq_None_iff split: option.splits)

text \<open>A zombie is announced by a signal, unless the signal for it was lost.\<close>

lemma rstep_announced:
  assumes "rstep s l s'" "child_inv s" "length (zombies (cs_children s)) \<le> announced s + d"
  shows "length (zombies (cs_children s')) \<le> announced s' + d + lost [l]"
  using assms
proof (induction rule: rstep.induct)
  case (exits s p status)
  then show ?case by (simp add: announced_def childExits_def length_zombies_update)
next
  case (stops s p)
  then show ?case by (cases "cs_kernelPending s") (simp_all add: announced_def)
next
  case (receive s)
  then have "cs_signalChannel s = Some SIGCHLD"
    by (metis child_inv_def child_signal.exhaust option.exhaust)
  then show ?case using receive by (simp add: announced_def receiveSignal_def)
next
  case (reap s n)
  then have "distinct (map fst (cs_children s))" by (simp add: child_inv_def)
  then show ?case
    by (rule_tac reapChild_cases [of n s]) (use reap in \<open>auto simp: announced_def length_zombies_delete\<close>)
next
  case (returns p s call s')
  then have d: "distinct (map fst (cs_children s))" by (simp add: child_inv_def)
  show ?case
    using returns length_zombies_delete [OF d, of p]
    by (auto simp: announced_def cmdWait_def Let_def split: option.splits proc_state.splits if_splits)
qed (auto simp: announced_def notifySignal_def split: option.splits)

lemma rsteps_inv:
  assumes "rsteps child_init ls s"
  shows "child_inv s \<and> length (zombies (cs_children s)) \<le> announced s + lost ls"
  using assms
proof (induction child_init ls s rule: rsteps.induct)
  case no_step
  then show ?case by (simp add: child_init_def child_inv_def script_results_ok_def)
next
  case (a_step ls s' l s'')
  then show ?case using rstep_inv rstep_announced [OF a_step(3), of "lost ls"] by (auto simp: add.assoc)
qed

lemma rsteps_first: "rsteps s' ls s'' \<Longrightarrow> rstep s l s' \<Longrightarrow> rsteps s (l # ls) s''"
proof (induction s' ls s'' rule: rsteps.induct)
  case (no_step s')
  then show ?case using a_step [OF rsteps.no_step, of s l s'] by simp
next
  case (a_step s0 ls s1 l' s2)
  then show ?case using rsteps.a_step [of s "l # ls" s1 l' s2] by simp
qed

lemma rsteps_append: "rsteps s' ls' s'' \<Longrightarrow> rsteps s ls s' \<Longrightarrow> rsteps s (ls @ ls') s''"
proof (induction s' ls' s'' rule: rsteps.induct)
  case (a_step s0 ls' s1 l s2)
  then show ?case using rsteps.a_step [of s "ls @ ls'" s1 l s2] by simp
qed simp

text \<open>The way that is left to the signals, and the steps of the runtime and of the reaper that shorten
  it: taken from the end nearest to the reaper they lose no signal.\<close>

definition way :: "child_sys \<Rightarrow> nat" where
  "way s = 4 * of_bool (cs_kernelPending s) + 3 * of_bool (cs_runtimePending s) + 2 * of_bool (cs_signalChannel s \<noteq> None)
     + of_bool (cs_reaper s = AtWait4)"

lemma way_step:
  assumes "announced s \<noteq> 0"
  obtains l s' where "rstep s l s'" "\<not> loses_signal l" "way s' < way s" "cs_exited s' = cs_exited s"
proof -
  consider "cs_reaper s = AtWait4" | "cs_reaper s = AtReceive" "cs_signalChannel s \<noteq> None"
    | "cs_signalChannel s = None" "cs_runtimePending s" | "\<not> cs_runtimePending s" "cs_kernelPending s"
    using assms by (cases "cs_reaper s") (auto simp: announced_def)
  then show ?thesis
  proof cases
    case 1
    have "way (reapChild 0 s) < way s \<and> cs_exited (reapChild 0 s) = cs_exited s"
      by (rule reapChild_cases [of 0 s]) (use 1 in \<open>auto simp: way_def\<close>)
    then show ?thesis using that [OF reap [OF 1, of 0]] by simp
  next
    case 2
    then show ?thesis using that [OF receive [OF 2]] by (auto simp: way_def receiveSignal_def)
  next
    case 3
    then show ?thesis using that [OF notify [OF 3(2)]] by (simp add: way_def notifySignal_def)
  next
    case 4
    then show ?thesis using that [OF deliver [OF 4(2)]] by (simp add: way_def)
  qed
qed

lemma reaper_comes_to_rest:
  "\<exists>ls s'. rsteps s ls s' \<and> announced s' = 0 \<and> lost ls = 0 \<and> cs_exited s' = cs_exited s"
proof (induction "way s" arbitrary: s rule: less_induct)
  case less
  show ?case
  proof (cases "announced s = 0")
    case True
    then show ?thesis using no_step [of s] by force
  next
    case False
    then obtain l s1 where s1: "rstep s l s1" "\<not> loses_signal l" "way s1 < way s" "cs_exited s1 = cs_exited s"
      by (rule way_step)
    obtain ls s' where "rsteps s1 ls s'" "announced s' = 0" "lost ls = 0" "cs_exited s' = cs_exited s1"
      using less [OF s1(3)] by blast
    then show ?thesis using rsteps_first [OF _ s1(1)] s1(2,4) by (intro exI [of _ "l # ls"] exI [of _ s']) simp
  qed
qed

text \<open>(C37) In every interleaving of children that start, are adopted, stop and exit, of the signals on
  their way, of the reaper and of runs of the reload script: there are no more zombies than signals
  the reaper has yet to act on and signals that were lost. So when the reaper has nothing left to act
  on and every signal got through there is no zombie, and from every state the reaper can go on,
  losing no signal and with no child exiting, until at most as many zombies are left as signals were
  lost.\<close>

theorem reaper_correct:
  assumes "rsteps child_init ls s"
  shows "length (zombies (cs_children s)) \<le> announced s + lost ls
    \<and> (announced s = 0 \<and> lost ls = 0 \<longrightarrow> zombies (cs_children s) = [])
    \<and> (\<exists>ls' s'. rsteps s ls' s' \<and> cs_exited s' = cs_exited s \<and> lost ls' = 0 \<and> announced s' = 0
         \<and> length (zombies (cs_children s')) \<le> lost ls)"
proof -
  obtain ls' s' where s': "rsteps s ls' s'" "announced s' = 0" "lost ls' = 0" "cs_exited s' = cs_exited s"
    using reaper_comes_to_rest by blast
  have "length (zombies (cs_children s')) \<le> lost ls"
    using rsteps_inv [OF rsteps_append [OF s'(1) assms]] s'(2,3) by simp
  then show ?thesis using rsteps_inv [OF assms] s' by auto
qed

text \<open>Children that exit one after the other, before the first signal has left the kernel.\<close>

definition exited_children :: "nat \<Rightarrow> child_sys" where
  "exited_children n = child_init\<lparr>cs_children := map (\<lambda>p. (p, Zombie None)) (rev [0..<n]),
     cs_exited := map (\<lambda>p. (p, None)) [0..<n], cs_kernelPending := (n \<noteq> 0)\<rparr>"

definition exited_labels :: "nat \<Rightarrow> child_label list" where
  "exited_labels n = concat (map (\<lambda>p. [Adopted p, Exited p (p \<noteq> 0)]) [0..<n])"

lemma exited_children_reached: "rsteps child_init (exited_labels n) (exited_children n)"
proof (induction n)
  case 0
  show ?case using no_step [of child_init] by (simp add: exited_labels_def exited_children_def child_init_def)
next
  case (Suc n)
  let ?s = "exited_children n"
  let ?s' = "?s\<lparr>cs_children := (n, Alive) # cs_children ?s\<rparr>"
  have "rstep ?s (Adopted n) ?s'"
    by (rule adopt) (auto simp: exited_children_def child_init_def map_of_eq_None_iff)
  moreover have "rstep ?s' (Exited n (n \<noteq> 0)) (childExits n None ?s')"
    using exits [of ?s' n None] by (simp add: exited_children_def)
  moreover have "childExits n None ?s' = exited_children (Suc n)"
    by (simp add: childExits_def exited_children_def)
  ultimately have "rsteps ?s [Adopted n, Exited n (n \<noteq> 0)] (exited_children (Suc n))"
    by (metis rsteps_first rsteps.no_step)
  then show ?case using rsteps_append [OF _ Suc] by (simp add: exited_labels_def)
qed

lemma lost_exited_labels: "lost (exited_labels n) = n - 1"
  by (induction n) (auto simp: exited_labels_def)

lemma zombies_exited_children: "zombies (cs_children (exited_children n)) = rev [0..<n]"
  by (simp add: exited_children_def zombies_def filter_map comp_def)

theorem reaper_correct_witness:
  "rsteps child_init (exited_labels 2) (exited_children 2) \<and> length (zombies (cs_children (exited_children 2))) = 2
   \<and> (\<exists>ls s. rsteps (exited_children 2) ls s \<and> announced s = 0 \<and> length (zombies (cs_children s)) \<le> 1)"
  using reaper_correct [OF exited_children_reached [of 2]] exited_children_reached [of 2]
  by (auto simp: lost_exited_labels zombies_exited_children)

text \<open>(C39) The bound is met: for every \<open>n\<close> there is an execution in which \<open>n + 1\<close> children exit, the
  reaper runs, and when no signal is left and no run of a script waits any more, \<open>n\<close> zombies remain.
  The loop of the reaper collects one child for a signal, however many the signal stands for.\<close>

theorem zombies_remain:
  "\<exists>ls s. rsteps child_init ls s \<and> length (cs_exited s) = Suc n \<and> announced s = 0 \<and> cs_waiting s = []
     \<and> length (zombies (cs_children s)) = n"
proof -
  let ?s0 = "exited_children (Suc n)"
  let ?s1 = "?s0\<lparr>cs_kernelPending := False, cs_runtimePending := True\<rparr>"
  let ?s2 = "?s0\<lparr>cs_kernelPending := False, cs_signalChannel := Some SIGCHLD\<rparr>"
  let ?s3 = "?s0\<lparr>cs_kernelPending := False, cs_reaper := AtWait4\<rparr>"
  let ?s4 = "?s0\<lparr>cs_kernelPending := False, cs_children := cs_children (exited_children n)\<rparr>"
  have "rstep ?s0 (Delivered False) ?s1" using deliver [of ?s0] by (simp add: exited_children_def child_init_def)
  moreover have "rstep ?s1 (Notified False) ?s2"
    using notify [of ?s1] by (simp add: exited_children_def child_init_def notifySignal_def)
  moreover have "rstep ?s2 ReceivedSignal ?s3"
    using receive [of ?s2] by (simp add: exited_children_def child_init_def receiveSignal_def)
  moreover have "reapChild 0 ?s3 = ?s4"
  proof -
    have "AList.delete n (cs_children ?s0) = cs_children (exited_children n)"
      by (auto simp: exited_children_def AList.delete_eq filter_id_conv)
    then have "Wait4_any 0 (cs_children ?s3) = (Collected n, cs_children (exited_children n))"
      using zombies_exited_children [of "Suc n"] by (simp add: Wait4_any_def exited_children_def)
    then show ?thesis by (simp add: reapChild_def exited_children_def child_init_def)
  qed
  then have "rstep ?s3 (Reaped 0) ?s4" using reap [of ?s3 0] by simp
  ultimately have "rsteps ?s0 [Delivered False, Notified False, ReceivedSignal, Reaped 0] ?s4"
    by (meson rsteps_first rsteps.no_step)
  then have "rsteps child_init (exited_labels (Suc n) @ [Delivered False, Notified False, ReceivedSignal, Reaped 0]) ?s4"
    using exited_children_reached by (rule rsteps_append)
  moreover have "announced ?s4 = 0" "cs_waiting ?s4 = []" "length (cs_exited ?s4) = Suc n"
    by (simp_all add: announced_def exited_children_def child_init_def)
  moreover have "length (zombies (cs_children ?s4)) = n" by (simp add: zombies_exited_children)
  ultimately show ?thesis by blast
qed

section \<open>The reaper and the reload script\<close>

text \<open>What \<open>CombinedOutput\<close> may return for a process that ends with \<open>status\<close>: what some execution beside
  the reaper gives.\<close>

definition CombinedOutput_returns :: "go_error option \<Rightarrow> go_error option \<Rightarrow> bool" where
  "CombinedOutput_returns status r \<longleftrightarrow>
     (\<exists>ls s p. rsteps child_init ls s \<and> (p, status) \<in> set (cs_exited s) \<and> (p, r) \<in> set (cs_results s))"

lemma status_exists: "\<exists>ls s. rsteps child_init ls s \<and> map_of (cs_children s) p = Some (Zombie status)
    \<and> cs_waiting s = [p] \<and> (p, status) \<in> set (cs_exited s) \<and> cs_kernelPending s \<and> \<not> cs_runtimePending s
    \<and> cs_signalChannel s = None \<and> cs_reaper s = AtReceive \<and> zombies (cs_children s) = [p]"
proof -
  let ?s1 = "child_init\<lparr>cs_children := [(p, Alive)], cs_waiting := [p]\<rparr>"
  have "rstep child_init (Started p) ?s1" using start [of child_init p] by (simp add: child_init_def)
  moreover have "rstep ?s1 (Exited p False) (childExits p status ?s1)"
    using exits [of ?s1 p status] by (simp add: child_init_def)
  ultimately have "rsteps child_init [Started p, Exited p False] (childExits p status ?s1)"
    by (meson rsteps_first rsteps.no_step)
  then show ?thesis
    by (intro exI [of _ "[Started p, Exited p False]"] exI [of _ "childExits p status ?s1"])
      (simp add: childExits_def child_init_def)
qed

lemma status_taken:
  assumes "cs_kernelPending s" "\<not> cs_runtimePending s" "cs_signalChannel s = None" "cs_reaper s = AtReceive"
    and "zombies (cs_children s) = [p]"
  shows "\<exists>ls. rsteps s ls (s\<lparr>cs_kernelPending := False, cs_children := AList.delete p (cs_children s)\<rparr>)"
proof -
  let ?s1 = "s\<lparr>cs_kernelPending := False, cs_runtimePending := True\<rparr>"
  let ?s2 = "s\<lparr>cs_kernelPending := False, cs_runtimePending := False, cs_signalChannel := Some SIGCHLD\<rparr>"
  let ?s3 = "s\<lparr>cs_kernelPending := False, cs_runtimePending := False, cs_signalChannel := None, cs_reaper := AtWait4\<rparr>"
  let ?s4 = "s\<lparr>cs_kernelPending := False, cs_children := AList.delete p (cs_children s)\<rparr>"
  have ne: "cs_children s \<noteq> []" using assms(5) by auto
  have "rstep s (Delivered False) ?s1" using deliver [of s] assms by simp
  moreover have "rstep ?s1 (Notified False) ?s2" using notify [of ?s1] assms by (simp add: notifySignal_def)
  moreover have "rstep ?s2 ReceivedSignal ?s3" using receive [of ?s2] assms by (simp add: receiveSignal_def)
  moreover have "reapChild 0 ?s3 = ?s4" using assms ne by (simp add: reapChild_def Wait4_any_def)
  then have "rstep ?s3 (Reaped 0) ?s4" using reap [of ?s3 0] by simp
  ultimately show ?thesis by (meson rsteps_first rsteps.no_step)
qed

lemma CombinedOutput_returns_status: "CombinedOutput_returns status status"
proof -
  obtain ls s where s: "rsteps child_init ls s" "map_of (cs_children s) 0 = Some (Zombie status)"
      "cs_waiting s = [0]" "(0, status) \<in> set (cs_exited s)"
    using status_exists [of 0 status] by blast
  obtain s' where s': "cmdWait ''wait'' 0 s = Some s'" "cs_exited s' = cs_exited s" "(0, status) \<in> set (cs_results s')"
    using s(2) by (simp add: cmdWait_def Let_def)
  then have "rsteps child_init (ls @ [CmdReturned 0]) s'" using s(3)
    by (intro a_step [OF s(1)] returns [of 0 s "''wait''"]) simp_all
  then show ?thesis using s(4) s' unfolding CombinedOutput_returns_def by metis
qed

lemma CombinedOutput_returns_error: "CombinedOutput_returns status (Some (wait_error call))"
proof -
  obtain ls s where s: "rsteps child_init ls s" "cs_waiting s = [0]" "(0, status) \<in> set (cs_exited s)"
      "cs_kernelPending s" "\<not> cs_runtimePending s" "cs_signalChannel s = None" "cs_reaper s = AtReceive"
      "zombies (cs_children s) = [0]"
    using status_exists [of 0 status] by blast
  let ?s = "s\<lparr>cs_kernelPending := False, cs_children := AList.delete 0 (cs_children s)\<rparr>"
  obtain ls' where "rsteps s ls' ?s" using status_taken [OF s(4-8)] by blast
  then have run: "rsteps child_init (ls @ ls') ?s" using s(1) by (rule rsteps_append)
  obtain s' where s': "cmdWait call 0 ?s = Some s'" "cs_exited s' = cs_exited s"
      "(0, Some (wait_error call)) \<in> set (cs_results s')"
    by (simp add: cmdWait_def Let_def delete_conv' restrict_map_def)
  have "rsteps child_init ((ls @ ls') @ [CmdReturned 0]) s'"
    using run by (rule a_step) (rule returns [OF _ s'(1)], simp add: s(2))
  then show ?thesis using s(3) s' unfolding CombinedOutput_returns_def by metis
qed

lemma CombinedOutput_returns_iff:
  "CombinedOutput_returns status r \<longleftrightarrow> r = status \<or> (\<exists>call. r = Some (wait_error call))"
proof
  assume "CombinedOutput_returns status r"
  then obtain ls s p where s: "rsteps child_init ls s" "(p, status) \<in> set (cs_exited s)" "(p, r) \<in> set (cs_results s)"
    by (auto simp: CombinedOutput_returns_def)
  have "script_results_ok s" "distinct (map fst (cs_exited s))" using rsteps_inv [OF s(1)] by (simp_all add: child_inv_def)
  then show "r = status \<or> (\<exists>call. r = Some (wait_error call))"
    using s(2,3) eq_key_imp_eq_value [of "cs_exited s" p status r] by (auto simp: script_results_ok_def)
qed (auto intro: CombinedOutput_returns_status CombinedOutput_returns_error)

text \<open>\<open>observes prog script\<close>: \<open>script\<close>, the argument of \<open>CommandRunner_Run\<close>, is what the router may
  see of the program \<open>prog\<close> at the path of the reload script: its effects on the files, and for its
  exit status what \<open>CombinedOutput\<close> returns in some execution beside the reaper.\<close>

definition observes :: "script \<Rightarrow> script \<Rightarrow> bool" where
  "observes prog script \<longleftrightarrow>
     (\<forall>path env files. snd (script path env files) = snd (prog path env files)
        \<and> CombinedOutput_returns (fst (prog path env files)) (fst (script path env files)))"

lemma observes_iff:
  "observes prog script \<longleftrightarrow>
     (\<forall>path env files. snd (script path env files) = snd (prog path env files)
        \<and> (fst (script path env files) = fst (prog path env files)
           \<or> (\<exists>call. fst (script path env files) = Some (wait_error call))))"
  by (simp add: observes_def CombinedOutput_returns_iff)

text \<open>(C38) Whatever the reload program is, the update of the same table in the same world has two
  outcomes when the program ends well, and which one it has depends on the reaper alone. In one
  \<open>Configure\<close> returns no error and the monitor watches; in the other \<open>Configure\<close> returns the error of a
  \<open>wait\<close> for a process that is gone and leaves the monitor off, although the complete new
  configuration was in place and the program has run on it to its end, exactly as in the first.\<close>

theorem reaped_reload_reported_failed:
  assumes "fs_faults w = []" "fs_files w (hc_configFilePath h) = Some old"
    and "fs_files w (hc_baseConfigFilePath h) = Some base" "hc_baseConfigFilePath h \<noteq> bak_path h"
    and "prog path env (files_written h t (fs_files w)) = (None, files')"
    and "env = (if f then Some [''IS_DRAINING=true''] else None)"
  shows "\<exists>script script' w1 err w2. observes prog script \<and> observes prog script'
    \<and> Configure (with_script script path h) t f w = (None, w1) \<and> stopWatching (rw_monitor w1) = 0
    \<and> Configure (with_script script' path h) t f w = (Some err, w2) \<and> stopWatching (rw_monitor w2) = 1
    \<and> fs_files w1 = files' \<and> fs_files w2 = files'
    \<and> rw_commands w2 = rw_commands w @ [\<lparr>cmd_path = path, cmd_env = env, cmd_files = files_written h t (fs_files w)\<rparr>]
    \<and> rw_commands w1 = rw_commands w2
    \<and> files_written h t (fs_files w) (hc_configFilePath h) =
        Some (base @ hc_configMarshaller h (fst (NewHAProxyConfig t)) (hc_backendTlsCfg h))"
proof -
  let ?files = "files_written h t (fs_files w)"
  have seen: "\<exists>w'. Configure (with_script script path h) t f w = (r, w') \<and> fs_files w' = files'
      \<and> rw_commands w' = rw_commands w @ [\<lparr>cmd_path = path, cmd_env = env, cmd_files = ?files\<rparr>]
      \<and> stopWatching (rw_monitor w') = (if r = None then 0 else 1)"
    if "script path env ?files = (r, files')" for script r
  proof -
    have "files_written (with_script script path h) t (fs_files w) = ?files"
      by (simp add: files_written_def new_config_def)
    then show ?thesis
      using Configure_no_faults [of w "with_script script path h" old base t f]
        reload_command [OF with_script_simps(5) [of script path h] assms(6)] assms(1-4) that
      by (cases r) (simp_all add: StartWatching_def StopWatching_def Let_def)
  qed
  let ?script' = "\<lambda>path env files. (Some (wait_error ''wait''), snd (prog path env files))"
  obtain w1 where w1: "Configure (with_script prog path h) t f w = (None, w1)" "fs_files w1 = files'"
      "rw_commands w1 = rw_commands w @ [\<lparr>cmd_path = path, cmd_env = env, cmd_files = ?files\<rparr>]" "stopWatching (rw_monitor w1) = 0"
    using seen [of prog None] assms(5) by auto
  obtain w2 where w2: "Configure (with_script ?script' path h) t f w = (Some (wait_error ''wait''), w2)" "fs_files w2 = files'"
      "rw_commands w2 = rw_commands w @ [\<lparr>cmd_path = path, cmd_env = env, cmd_files = ?files\<rparr>]" "stopWatching (rw_monitor w2) = 1"
    using seen [of ?script' "Some (wait_error ''wait'')"] assms(5) by auto
  have "?files (hc_configFilePath h) = Some (base @ hc_configMarshaller h (fst (NewHAProxyConfig t)) (hc_backendTlsCfg h))"
    using assms by (simp add: files_written_def new_config_def)
  moreover have "observes prog prog" "observes prog ?script'" by (auto simp: observes_iff)
  ultimately show ?thesis using w1 w2 by metis
qed

theorem reaped_reload_reported_failed_witness:
  "\<exists>script err w'. observes (\<lambda>path env files. (None, files(''pid'' \<mapsto> ''42''))) script
     \<and> Configure (with_script script ''reload'' sample_configurer) sample_table False sample_world = (Some err, w')
     \<and> fs_files w' ''pid'' = Some ''42'' \<and> stopWatching (rw_monitor w') = 1"
proof -
  let ?prog = "\<lambda>path env files. (None :: go_error option, files(''pid'' \<mapsto> ''42''))"
  let ?files = "files_written sample_configurer sample_table (fs_files sample_world)"
  have w: "fs_faults sample_world = []" "fs_files sample_world (hc_configFilePath sample_configurer) = Some ''old''"
      "fs_files sample_world (hc_baseConfigFilePath sample_configurer) = Some ''global''"
      "hc_baseConfigFilePath sample_configurer \<noteq> bak_path sample_configurer"
    by (simp_all add: sample_world_def sample_configurer_def)
  obtain script err w' where "observes ?prog script" "stopWatching (rw_monitor w') = 1"
      "Configure (with_script script ''reload'' sample_configurer) sample_table False sample_world = (Some err, w')"
      "fs_files w' = ?files(''pid'' \<mapsto> ''42'')"
    using reaped_reload_reported_failed [OF w, where prog = ?prog and path = "''reload''" and env = None and f = False
        and t = sample_table and files' = "?files(''pid'' \<mapsto> ''42'')"] by auto
  then show ?thesis by (metis fun_upd_same)
qed

end
