(* ===== verification/Config_Reader.thy ===== *)
theory Config_Reader
  imports Config_Marshaller
begin

text \<open>
  A reader for the part of HAProxy's configuration language that the marshaller writes: lines of
  words, sections that start with \<open>frontend\<close> or \<open>backend\<close>, and the choice of the servers for a
  connection by port and server name. It is a specification, independent of the marshaller;
  reading the marshalled text back gives the routes the text was written for.
\<close>

section \<open>The reader\<close>

text \<open>A word is a sequence of characters none of which has a meaning of its own to HAProxy's line
  parser.\<close>

definition word_char :: "char \<Rightarrow> bool" where
  "word_char c \<longleftrightarrow> c \<notin> {CHR '' '', CHR 9, CHR 10, CHR 13, CHR 34, CHR 35, CHR 36, CHR 39, CHR 92}"

definition is_word :: "string \<Rightarrow> bool" where
  "is_word w \<longleftrightarrow> w \<noteq> [] \<and> list_all word_char w"

definition line_words :: "string \<Rightarrow> string list" where
  "line_words l = filter (\<lambda>w. w \<noteq> []) (splitOn CHR '' '' l)"

datatype cfg_item =
    CfgFrontend string
  | CfgBackend string
  | CfgBind string
  | CfgUse string string
  | CfgDefault string
  | CfgServer string "string list"
  | CfgOther

definition word_at :: "string list \<Rightarrow> nat \<Rightarrow> string" where
  "word_at ws i = (if i < length ws then ws ! i else [])"

definition readLine :: "string \<Rightarrow> cfg_item" where
  "readLine l =
     (let ws = line_words l; w = word_at ws in
      if w 0 = ''frontend'' then CfgFrontend (w 1)
      else if w 0 = ''backend'' then CfgBackend (w 1)
      else if w 0 = ''bind'' then CfgBind (w 1)
      else if w 0 = ''use_backend'' \<and> w 2 = ''if'' \<and> w 4 = ''req.ssl_sni'' then CfgUse (w 1) (w 5)
      else if w 0 = ''default_backend'' then CfgDefault (w 1)
      else if w 0 = ''server'' then CfgServer (w 2) (drop 3 ws)
      else CfgOther)"

fun is_header :: "cfg_item \<Rightarrow> bool" where
  "is_header (CfgFrontend _) = True"
| "is_header (CfgBackend _) = True"
| "is_header _ = False"

type_synonym cfg_section = "cfg_item \<times> cfg_item list"

text \<open>The items before the first header, and the sections.\<close>

fun sections :: "cfg_item list \<Rightarrow> cfg_item list \<times> cfg_section list" where
  "sections [] = ([], [])"
| "sections (i # is) =
     (let (body, secs) = sections is in
      if is_header i then ([], (i, body) # secs) else (i # body, secs))"

definition readConfig :: "string \<Rightarrow> cfg_section list" where
  "readConfig text = snd (sections (filter (\<lambda>i. i \<noteq> CfgOther) (map readLine (text_lines text))))"

text \<open>A connection to a port goes to the frontend bound to it; there the first rule for its server
  name, or else the default, names the backend.\<close>

fun binds :: "string \<Rightarrow> cfg_section \<Rightarrow> bool" where
  "binds port (CfgFrontend _, body) \<longleftrightarrow> CfgBind ('':'' @ port) \<in> set body"
| "binds port _ \<longleftrightarrow> False"

fun useRule :: "string \<Rightarrow> cfg_item list \<Rightarrow> string option" where
  "useRule sni [] = None"
| "useRule sni (CfgUse b h # is) = (if h = sni then Some b else useRule sni is)"
| "useRule sni (_ # is) = useRule sni is"

fun defaultRule :: "cfg_item list \<Rightarrow> string option" where
  "defaultRule [] = None"
| "defaultRule (CfgDefault b # is) = Some b"
| "defaultRule (_ # is) = defaultRule is"

fun serverItems :: "cfg_item list \<Rightarrow> (string \<times> string list) list" where
  "serverItems [] = []"
| "serverItems (CfgServer a opts # is) = (a, opts) # serverItems is"
| "serverItems (_ # is) = serverItems is"

definition dispatch :: "cfg_section list \<Rightarrow> string \<Rightarrow> string \<Rightarrow> (string \<times> string list) list option" where
  "dispatch secs port sni =
     (case find (binds port) secs of
        None \<Rightarrow> None
      | Some (_, rules) \<Rightarrow>
          (case (case useRule sni rules of Some b \<Rightarrow> Some b | None \<Rightarrow> defaultRule rules) of
             None \<Rightarrow> None
           | Some b \<Rightarrow> map_option (\<lambda>(_, body). serverItems body) (find (\<lambda>s. fst s = CfgBackend b) secs)))"

section \<open>Words\<close>

lemma is_word_append [simp]:
  "is_word v \<Longrightarrow> list_all word_char w \<Longrightarrow> is_word (v @ w)"
  "is_word w \<Longrightarrow> list_all word_char v \<Longrightarrow> is_word (v @ w)"
  by (auto simp: is_word_def)

lemma is_word_chars: "is_word w \<Longrightarrow> list_all word_char w"
  by (simp add: is_word_def)

lemma is_word_nospace: "is_word w \<Longrightarrow> CHR '' '' \<notin> set w"
  by (auto simp: is_word_def word_char_def list_all_iff)

lemma is_word_clean: "is_word w \<Longrightarrow> clean w"
  by (auto simp: is_word_def word_char_def list_all_iff clean_def)

lemma line_words_space [simp]: "line_words (CHR '' '' # s) = line_words s"
  by (simp add: line_words_def)

lemma line_words_join: "list_all is_word ws \<Longrightarrow> line_words (joinWith '' '' ws) = ws"
proof (induction ws rule: induct_list012)
  case (2 w)
  then show ?case by (simp add: line_words_def splitOn_no_sep is_word_nospace) (simp add: is_word_def)
next
  case (3 v w ws)
  then show ?case
    by (simp add: line_words_def splitOn_append_sep is_word_nospace) (simp add: is_word_def)
qed (simp add: line_words_def)

lemma digit_word_char: "is_digit c \<Longrightarrow> word_char c"
  by (auto simp: is_digit_def word_char_def)

lemma dns_word_char: "dns_char c \<Longrightarrow> word_char c"
  by (auto simp: dns_char_def dns_rest_def dns_first_def word_char_def Let_def)

lemma show_words [simp]:
  "is_word (showNat n)" "is_word (showU16 p)"
  using showNat_digits digit_word_char by (fastforce simp: is_word_def list_all_iff showU16_def)+

lemma showInt_word [simp]: "0 \<le> i \<Longrightarrow> is_word (showInt i)"
  by (simp add: showInt_def)

lemma validDNSName_word: "isValidDNSName h \<Longrightarrow> is_word h"
  using validDNSName_chars dns_word_char validDNSName_nonempty
  by (fastforce simp: is_word_def list_all_iff)

section \<open>Reading the lines of the marshaller\<close>

text \<open>What a server line has to say: the address HAProxy connects to and the options of the
  connection.\<close>

definition server_target :: "BackendTLSConfig \<Rightarrow> HAProxyServer \<Rightarrow> string \<times> string list" where
  "server_target tls s =
     (if bk_TLSPort s > 0 then
        (bk_Address s @ '':'' @ showInt (bk_TLSPort s),
         [''ssl'', ''verify'', ''required'', ''verifyhost'', bk_InstanceID s,
          ''ca-file'', tls_CACertificatePath tls]
         @ (if tls_ClientCertAndKeyPath tls = '''' then [] else [''crt'', tls_ClientCertAndKeyPath tls]))
      else (bk_Address s @ '':'' @ showU16 (bk_Port s), []))"

definition word_server :: "HAProxyServer \<Rightarrow> bool" where
  "word_server s \<longleftrightarrow> is_word (bk_Address s) \<and> (bk_TLSPort s > 0 \<longrightarrow> is_word (bk_InstanceID s))"

definition word_host :: "SniHostname \<Rightarrow> bool" where
  "word_host h \<longleftrightarrow> h = SniHostname '''' \<or> is_word (sni_string h)"

definition word_tls :: "BackendTLSConfig \<Rightarrow> bool" where
  "word_tls tls \<longleftrightarrow> clean_tls tls \<and> (tls_Enabled tls \<longrightarrow> is_word (tls_CACertificatePath tls))
     \<and> (tls_ClientCertAndKeyPath tls = '''' \<or> is_word (tls_ClientCertAndKeyPath tls))"

definition rule_item :: "HAProxyInboundPort \<Rightarrow> SniHostname \<Rightarrow> cfg_item" where
  "rule_item p h = (if h = SniHostname '''' then CfgDefault (backendCfgName p h)
     else CfgUse (backendCfgName p h) (sni_string h))"

lemma literal_words [simp]:
  "is_word ''frontend''" "is_word ''backend''" "is_word ''bind''" "is_word ''use_backend''"
  "is_word ''if''" "is_word ''{''" "is_word ''}''" "is_word ''req.ssl_sni''" "is_word ''default_backend''"
  "is_word ''server''" "is_word ''ssl''" "is_word ''verify''" "is_word ''required''"
  "is_word ''verifyhost''" "is_word ''ca-file''" "is_word ''crt''"
  by (simp_all add: is_word_def word_char_def)

lemma literal_prefixes [simp]:
  "list_all word_char ''frontend_''" "list_all word_char ''backend_''" "list_all word_char ''server_''"
  "list_all word_char '':''" "list_all word_char ''_''"
  by (simp_all add: word_char_def)

lemma compound_words:
  "is_word (''frontend_'' @ showU16 p)" "is_word ('':'' @ showU16 p)"
  "is_word a \<Longrightarrow> is_word n \<Longrightarrow> is_word (''server_'' @ a @ ''_'' @ n)"
  "is_word a \<Longrightarrow> is_word n \<Longrightarrow> is_word (a @ '':'' @ n)"
  using is_word_chars [OF show_words(2), of p] by (simp_all add: is_word_def) (simp_all add: word_char_def)

lemma backendCfgName_word: "word_host h \<Longrightarrow> is_word (backendCfgName p h)"
  using is_word_chars [OF show_words(2), of p]
  by (auto simp: word_host_def backendCfgName_def is_word_def word_char_def)

lemma read_joined:
  "list_all is_word ws \<Longrightarrow> l = s @ joinWith '' '' ws \<Longrightarrow> s = [] \<or> s = ''  '' \<Longrightarrow> line_words l = ws"
  by (auto simp: line_words_join)

lemma read_headers:
  "readLine (''frontend frontend_'' @ showU16 p) = CfgFrontend (''frontend_'' @ showU16 p)"
  "readLine (''  bind :'' @ showU16 p) = CfgBind ('':'' @ showU16 p)"
  "is_word n \<Longrightarrow> readLine (''backend '' @ n) = CfgBackend n"
proof -
  have "line_words (''frontend frontend_'' @ showU16 p) = [''frontend'', ''frontend_'' @ showU16 p]"
    by (rule read_joined [of _ _ "[]"]) (simp_all only: list.pred_inject compound_words literal_words, simp_all)
  then show "readLine (''frontend frontend_'' @ showU16 p) = CfgFrontend (''frontend_'' @ showU16 p)"
    by (simp add: readLine_def word_at_def)
  have "line_words (''  bind :'' @ showU16 p) = [''bind'', '':'' @ showU16 p]"
    by (rule read_joined [of _ _ "''  ''"]) (simp_all only: list.pred_inject compound_words literal_words, simp_all)
  then show "readLine (''  bind :'' @ showU16 p) = CfgBind ('':'' @ showU16 p)"
    by (simp add: readLine_def word_at_def)
  assume "is_word n"
  then have "line_words (''backend '' @ n) = [''backend'', n]"
    by (intro read_joined [of _ _ "[]"]) simp_all
  then show "readLine (''backend '' @ n) = CfgBackend n" by (simp add: readLine_def word_at_def)
qed

lemma read_others:
  "readLine [] = CfgOther" "readLine ''  mode tcp'' = CfgOther"
  "readLine ''  tcp-request inspect-delay 5s'' = CfgOther"
  "readLine ''  tcp-request content accept if { req.ssl_hello_type gt 0 }'' = CfgOther"
  by (simp_all add: readLine_def line_words_def word_at_def)

lemma read_rule_line: "word_host h \<Longrightarrow> readLine (rule_line p h) = rule_item p h"
proof (cases "h = SniHostname ''''")
  case True
  assume "word_host h"
  then have "line_words (rule_line p h) = [''default_backend'', backendCfgName p h]"
    using True by (intro read_joined [of _ _ "''  ''"]) (simp_all add: rule_line_def backendCfgName_word)
  with True show ?thesis by (simp add: readLine_def word_at_def rule_item_def)
next
  case False
  assume h: "word_host h"
  then have "line_words (rule_line p h) =
      [''use_backend'', backendCfgName p h, ''if'', ''{'', ''req.ssl_sni'', sni_string h, ''}'']"
    using False
    by (intro read_joined [of _ _ "''  ''"]) (simp_all add: rule_line_def backendCfgName_word, simp add: word_host_def)
  with False show ?thesis by (simp add: readLine_def word_at_def rule_item_def)
qed

lemma read_server_line:
  assumes "word_server s" and "word_tls tls" and "served tls s"
  shows "readLine (server_line tls s) = (case server_target tls s of (a, opts) \<Rightarrow> CfgServer a opts)"
proof -
  let ?n = "if bk_TLSPort s > 0 then showInt (bk_TLSPort s) else showU16 (bk_Port s)"
  let ?name = "''server_'' @ bk_Address s @ ''_'' @ ?n"
  have tls: "bk_TLSPort s > 0 \<Longrightarrow> is_word (tls_CACertificatePath tls)"
    using assms by (auto simp: served_def word_tls_def)
  have ws: "is_word ?name" "is_word (bk_Address s @ '':'' @ ?n)"
    using assms(1) by (auto simp only: word_server_def compound_words show_words showInt_word split: if_split)
  have "list_all is_word (''server'' # ?name # fst (server_target tls s) # snd (server_target tls s))"
    using ws tls assms by (auto simp: server_target_def word_server_def word_tls_def)
  then have "line_words (server_line tls s) =
      ''server'' # ?name # fst (server_target tls s) # snd (server_target tls s)"
    by (rule read_joined [of _ _ "''  ''"]) (simp_all add: server_line_def server_target_def)
  then show ?thesis by (simp add: readLine_def word_at_def case_prod_beta)
qed

section \<open>Reading the stanzas\<close>

definition items :: "string list \<Rightarrow> cfg_item list" where
  "items ls = filter (\<lambda>i. i \<noteq> CfgOther) (map readLine ls)"

lemma items_simps [simp]:
  "items [] = []" "items (xs @ ys) = items xs @ items ys"
  "items (l # ls) = (if readLine l = CfgOther then items ls else readLine l # items ls)"
  by (simp_all add: items_def)

lemma items_map: "\<forall>x \<in> set xs. readLine (f x) = g x \<and> g x \<noteq> CfgOther \<Longrightarrow> items (map f xs) = map g xs"
  by (induction xs) simp_all

lemma items_blanks: "items (concat (map ((#) []) sts)) = concat (map items sts)"
  by (induction sts) (simp_all add: read_others)

definition server_item :: "BackendTLSConfig \<Rightarrow> HAProxyServer \<Rightarrow> cfg_item" where
  "server_item tls s = CfgServer (fst (server_target tls s)) (snd (server_target tls s))"

definition frontend_section :: "HAProxyInboundPort \<Rightarrow> SniHostname list \<Rightarrow> cfg_section" where
  "frontend_section p hs =
     (CfgFrontend (''frontend_'' @ showU16 p), CfgBind ('':'' @ showU16 p) # map (rule_item p) hs)"

definition backend_section :: "BackendTLSConfig \<Rightarrow> string \<Rightarrow> HAProxyBackend \<Rightarrow> cfg_section" where
  "backend_section tls name b = (CfgBackend name, map (server_item tls) (filter (served tls) b))"

definition port_sections ::
  "BackendTLSConfig \<Rightarrow> HAProxyConfig \<Rightarrow> HAProxyInboundPort \<Rightarrow> cfg_section list" where
  "port_sections tls conf p = frontend_section p (hosts_of conf p)
     # map (\<lambda>h. backend_section tls (backendCfgName p h) (servers_of conf p h)) (hosts_of conf p)"

lemma rule_item_kinds [simp]: "rule_item p h \<noteq> CfgOther" "\<not> is_header (rule_item p h)"
  by (simp_all add: rule_item_def)

lemma server_item_kinds [simp]: "server_item tls s \<noteq> CfgOther" "\<not> is_header (server_item tls s)"
  by (simp_all add: server_item_def)

lemma items_frontend:
  "\<forall>h \<in> set hs. word_host h \<Longrightarrow> items (frontend_stanza p hs) = (case frontend_section p hs of (h, b) \<Rightarrow> h # b)"
  by (simp only: frontend_stanza_def frontend_section_def items_simps)
    (simp add: items_map read_headers [simplified] read_others [simplified] read_rule_line)

lemma items_backend:
  "is_word name \<Longrightarrow> word_tls tls \<Longrightarrow> \<forall>s \<in> set b. word_server s \<Longrightarrow>
     items (backend_stanza tls name b) = (case backend_section tls name b of (h, body) \<Rightarrow> h # body)"
  by (simp only: backend_stanza_def backend_section_def items_simps)
    (simp add: items_map read_headers [simplified] read_others [simplified] read_server_line
      server_item_def case_prod_beta)

lemma sections_body:
  "list_all (\<lambda>i. \<not> is_header i) body \<Longrightarrow> sections (body @ is) = (body @ fst (sections is), snd (sections is))"
  by (induction body) (simp_all add: case_prod_beta)

lemma sections_concat:
  "\<forall>(h, b) \<in> set secs. is_header h \<and> list_all (\<lambda>i. \<not> is_header i) b \<Longrightarrow>
     sections (concat (map (\<lambda>(h, b). h # b) secs)) = ([], secs)"
  by (induction secs) (auto simp: sections_body)

text \<open>A configuration whose texts are words.\<close>

definition word_conf :: "HAProxyConfig \<Rightarrow> bool" where
  "word_conf conf \<longleftrightarrow>
     (\<forall>p h b. conf_lookup conf p h = Some b \<longrightarrow> word_host h \<and> list_all word_server b)"

lemma word_conf_clean: "word_conf conf \<Longrightarrow> clean_conf conf"
  by (fastforce simp: word_conf_def clean_conf_def word_host_def word_server_def clean_server_def
      list_all_iff dest: is_word_clean)

lemma readConfig_Marshal:
  assumes "wf_conf conf" and "word_conf conf" and "word_tls tls"
  shows "readConfig (fst (Marshal conf tls)) = concat (map (port_sections tls conf) (sort (gm_keys conf)))"
proof -
  have w: "word_host h" "\<forall>s \<in> set (servers_of conf p h). word_server s" if "h \<in> set (hosts_of conf p)" for p h
    using that assms(1,2) by (auto simp: hosts_of_iff word_conf_def servers_of_def list_all_iff)
  have port: "concat (map items (port_stanzas tls p (hosts_of conf p) (servers_of conf p))) =
      concat (map (\<lambda>(h, b). h # b) (port_sections tls conf p))" for p
  proof -
    have "map (\<lambda>h. items (backend_stanza tls (backendCfgName p h) (servers_of conf p h))) (hosts_of conf p) =
        map (\<lambda>h. case backend_section tls (backendCfgName p h) (servers_of conf p h) of (h, b) \<Rightarrow> h # b)
          (hosts_of conf p)"
      using w assms(3) by (auto simp: items_backend backendCfgName_word)
    moreover have "items (frontend_stanza p (hosts_of conf p)) =
        (case frontend_section p (hosts_of conf p) of (h, b) \<Rightarrow> h # b)"
      using w by (simp add: items_frontend)
    ultimately show ?thesis by (simp add: port_stanzas_def port_sections_def comp_def cong: map_cong)
  qed
  have "concat (map items (concat (map (\<lambda>p. port_stanzas tls p (hosts_of conf p) (servers_of conf p)) ps))) =
      concat (map (\<lambda>(h, b). h # b) (concat (map (port_sections tls conf) ps)))" for ps
    by (induction ps) (simp_all add: port)
  then have "concat (map items (config_stanzas conf tls)) =
      concat (map (\<lambda>(h, b). h # b) (concat (map (port_sections tls conf) (sort (gm_keys conf)))))"
    by (simp only: config_stanzas_def)
  moreover have "\<forall>(h, b) \<in> set (concat (map (port_sections tls conf) (sort (gm_keys conf)))).
      is_header h \<and> list_all (\<lambda>i. \<not> is_header i) b"
    by (auto simp: port_sections_def frontend_section_def backend_section_def list_all_iff)
  moreover have "clean_tls tls" using assms(3) by (simp add: word_tls_def)
  ultimately show ?thesis
    using assms(1) word_conf_clean [OF assms(2)]
    by (simp add: readConfig_def Marshal_lines items_blanks sections_concat read_others flip: items_def)
qed

section \<open>Dispatch\<close>

lemma find_only:
  assumes "y \<in> set xs" and "P y" and "\<And>x. x \<in> set xs \<Longrightarrow> P x \<Longrightarrow> x = y"
  shows "find P xs = Some y"
proof -
  have "find P xs \<noteq> None" using assms(1,2) by (auto simp: find_None_iff)
  then obtain x where x: "find P xs = Some x" by blast
  then have "x = y" by (intro assms(3)) (auto simp: find_Some_iff)
  with x show ?thesis by simp
qed

lemma sni_string_eq: "sni_string h = s \<longleftrightarrow> h = SniHostname s"
  by (cases h) simp

lemma useRule_rules:
  "useRule sni (map (rule_item p) hs) =
     (if sni \<noteq> '''' \<and> SniHostname sni \<in> set hs then Some (backendCfgName p (SniHostname sni)) else None)"
  by (induction hs) (auto simp: rule_item_def sni_string_eq)

lemma defaultRule_rules:
  "defaultRule (map (rule_item p) hs) =
     (if SniHostname '''' \<in> set hs then Some (backendCfgName p (SniHostname '''')) else None)"
  by (induction hs) (auto simp: rule_item_def)

lemma serverItems_servers: "serverItems (map (server_item tls) ss) = map (server_target tls) ss"
  by (induction ss) (simp_all add: server_item_def)

lemma binds_sections:
  assumes "sec \<in> set (port_sections tls conf q)"
  shows "binds (showU16 p) sec \<longleftrightarrow> q = p \<and> sec = frontend_section p (hosts_of conf p)"
proof -
  have "CfgBind x \<noteq> rule_item q h" for x h by (simp add: rule_item_def)
  then show ?thesis
    using assms by (auto simp: port_sections_def frontend_section_def backend_section_def image_iff)
qed

lemma find_frontend:
  assumes "secs = concat (map (port_sections tls conf) ps)"
  shows "find (binds (showU16 p)) secs =
    (if p \<in> set ps then Some (frontend_section p (hosts_of conf p)) else None)"
proof (cases "p \<in> set ps")
  case True
  then have "find (binds (showU16 p)) secs = Some (frontend_section p (hosts_of conf p))"
    using assms binds_sections [of _ tls conf _ p]
    by (intro find_only) (auto simp: port_sections_def frontend_section_def)
  with True show ?thesis by simp
next
  case False
  then show ?thesis using assms binds_sections [of _ tls conf _ p] by (auto simp: find_None_iff)
qed

lemma find_backend:
  assumes "p \<in> set ps" and "h \<in> set (hosts_of conf p)" and "secs = concat (map (port_sections tls conf) ps)"
  shows "find (\<lambda>s. fst s = CfgBackend (backendCfgName p h)) secs =
    Some (backend_section tls (backendCfgName p h) (servers_of conf p h))"
  using assms
  by (intro find_only)
    (auto simp: port_sections_def frontend_section_def backend_section_def dest!: backendCfgName_inj)

lemma dispatch_Marshal:
  assumes "wf_conf conf" and "word_conf conf" and "word_tls tls"
  shows "dispatch (readConfig (fst (Marshal conf tls))) (showU16 p) sni =
    map_option (\<lambda>b. map (server_target tls) (filter (served tls) b))
      (case conf_lookup conf p (SniHostname sni) of Some b \<Rightarrow> Some b
       | None \<Rightarrow> conf_lookup conf p (SniHostname ''''))"
proof -
  let ?ps = "sort (gm_keys conf)" and ?hs = "hosts_of conf p"
  let ?secs = "concat (map (port_sections tls conf) ?ps)"
  note hosts = hosts_of_iff [OF assms(1), of _ p] and ports = ports_iff [OF assms(1), of p]
  have found: "map_option (\<lambda>(_, body). serverItems body)
      (find (\<lambda>s. fst s = CfgBackend (backendCfgName p h)) ?secs) =
    Some (map (server_target tls) (filter (served tls) b))" if "conf_lookup conf p h = Some b" for h b
  proof -
    have "p \<in> set ?ps" "h \<in> set ?hs" using that hosts ports by auto
    from find_backend [OF this refl, of tls] show ?thesis
      using that by (simp add: backend_section_def serverItems_servers servers_of_def)
  qed
  show ?thesis
  proof (cases "p \<in> set ?ps")
    case False
    then have "conf_lookup conf p h = None" for h using ports by auto
    with False show ?thesis
      by (simp add: dispatch_def readConfig_Marshal [OF assms] find_frontend [OF refl])
  next
    case True
    then show ?thesis
      using found hosts
      by (auto simp: dispatch_def readConfig_Marshal [OF assms] find_frontend [OF refl]
          frontend_section_def useRule_rules defaultRule_rules split: option.splits)
  qed
qed

section \<open>The text says what the table says\<close>

lemma word_NewHAProxyConfig:
  assumes "\<And>k b. (k, b) \<in> table_pairs t \<Longrightarrow> bk_TLSPort b > 0 \<Longrightarrow> is_word (bk_InstanceID b)"
  shows "word_conf (fst (NewHAProxyConfig t))"
  unfolding word_conf_def
proof (intro allI impI)
  fix p h b
  let ?rk = "\<lparr>rk_Port = p, rk_SniHostname = h\<rparr>"
  assume "conf_lookup (fst (NewHAProxyConfig t)) p h = Some b"
  then have k: "kept_route t ?rk" and b: "set b = set (kept_servers t ?rk)"
    by (auto simp: NewHAProxyConfig_lookup Let_def split: if_splits)
  from k have "word_host h" by (auto simp: kept_route_def valid_route_def word_host_def validDNSName_word)
  moreover have "word_server s" if "s \<in> set b" for s
    using that assms [of ?rk s] b set_kept_servers [of t ?rk]
    by (auto simp: word_server_def valid_server_def validDNSName_word table_pairs_def)
  ultimately show "word_host h \<and> list_all word_server b" by (simp add: list_all_iff)
qed

text \<open>(C9) Reading the marshalled text back: a connection to port \<open>p\<close> with server name \<open>sni\<close> (empty
  when the client sends none) is dispatched to exactly the valid backends the routing table holds
  for that port and name, if it holds any, and otherwise to those it holds for the port without a
  name; in the order of address and port, each with the address and the TLS options it must be
  reached with; backends with a TLS port are left out while \<open>backend_tls\<close> is disabled. Without such
  a route nothing is bound or no backend is chosen. Instance identifiers of TLS backends and the
  certificate paths, which the program does not check, have to be single words.\<close>

theorem marshalled_text_routes:
  assumes "\<forall>(k, b) \<in> table_pairs t. bk_TLSPort b > 0 \<longrightarrow> is_word (bk_InstanceID b)"
    and "word_tls tls" and "NewHAProxyConfig t = (conf, log)"
  shows "dispatch (readConfig (fst (Marshal conf tls))) (showU16 p) sni =
    (let named = \<lparr>rk_Port = p, rk_SniHostname = SniHostname sni\<rparr>;
         unnamed = \<lparr>rk_Port = p, rk_SniHostname = SniHostname ''''\<rparr>;
         k = (if kept_route t named then named else unnamed)
     in if kept_route t k
        then Some (map (server_target tls) (filter (served tls) (sliceStable serverLess (kept_servers t k))))
        else None)"
proof -
  have conf: "conf = fst (NewHAProxyConfig t)" using assms(3) by simp
  have "word_conf conf" unfolding conf using assms(1) by (intro word_NewHAProxyConfig) auto
  with wf_NewHAProxyConfig [of t] assms(2) show ?thesis
    unfolding conf by (simp add: dispatch_Marshal NewHAProxyConfig_lookup Let_def)
qed

theorem marshalled_text_routes_witness:
  "dispatch (readConfig (fst (Marshal (fst (NewHAProxyConfig sample_table)) no_tls))) (showU16 2222) ''x.com''
     = Some [server_target no_tls (info_key (sample_info 3))]"
proof -
  let ?k = "info_key (sample_info 3)"
  have set: "set (kept_servers sample_table sample_key) = {?k}"
    using sample_server_valid by (auto simp: set_kept_servers lookup_sample_table)
  then have one: "kept_servers sample_table sample_key = [?k]"
    using distinct_kept_servers [OF wf_sample_table] distinct_set_singleton by metis
  have key: "\<lparr>rk_Port = 2222, rk_SniHostname = SniHostname ''''\<rparr> = sample_key" by (simp add: sample_key_def)
  have "kept_servers sample_table \<lparr>rk_Port = 2222, rk_SniHostname = SniHostname ''x.com''\<rparr> = []"
    by (simp add: lookup_sample_table sample_key_def flip: set_empty add: set_kept_servers)
  then have named: "\<not> kept_route sample_table \<lparr>rk_Port = 2222, rk_SniHostname = SniHostname ''x.com''\<rparr>"
    by (simp add: kept_route_def)
  have kept: "kept_route sample_table sample_key"
    by (simp add: kept_route_def one) (simp add: valid_route_def sample_key_def)
  have "served no_tls ?k"
    by (simp add: served_def info_key_def sample_info_def serverKeyDetailsFromInfo_def)
  moreover have "\<forall>(k, b) \<in> table_pairs sample_table. bk_TLSPort b > 0 \<longrightarrow> is_word (bk_InstanceID b)"
    by (auto simp: table_pairs_def lookup_sample_table info_key_def sample_info_def serverKeyDetailsFromInfo_def)
  moreover have "word_tls no_tls" by (simp add: word_tls_def clean_tls_def no_tls_def)
  ultimately show ?thesis
    using marshalled_text_routes [of sample_table no_tls, OF _ _ prod.collapse [symmetric], of 2222 "''x.com''"]
      named kept one by (simp add: Let_def key)
qed

end
