(* ===== verification/Configurer_Concurrency.thy ===== *)
theory Configurer_Concurrency
  imports Haproxy_Configurer
begin

text \<open>
  Concurrent calls of \<open>Configure\<close> (\<open>configurer/haproxy/haproxy_configurer.go\<close>): the updater makes
  the call of a drain without its own lock, so it can run beside the one of a sync or an event. A
  call is a goroutine with a program point; \<open>configFileLock\<close> is held from after \<open>StopWatching\<close> to
  the return, and every access to a file or to the monitor is a step of its own.
\<close>

section \<open>The calls as goroutines\<close>

datatype 'tag conf_pc =
    CStop "'tag RoutingTable" bool
  | CLock "'tag RoutingTable" bool
  | CBackup "'tag RoutingTable" bool
  | CReadBase "'tag RoutingTable" bool
  | CWrite bool string
  | CRun bool
  | CStart
  | CUnlock "go_error option"
  | CDone "go_error option"

fun holding :: "'tag conf_pc \<Rightarrow> bool" where
  "holding (CStop t f) = False"
| "holding (CLock t f) = False"
| "holding (CDone err) = False"
| "holding _ = True"

text \<open>One step of a call that does not touch the lock.\<close>

fun confNext :: "Configurer \<Rightarrow> 'tag conf_pc \<Rightarrow> router_world \<Rightarrow> 'tag conf_pc \<times> router_world" where
  "confNext h (CStop t f) w = (CLock t f, w\<lparr>rw_monitor := StopWatching (rw_monitor w)\<rparr>)"
| "confNext h (CBackup t f) w =
     (case createConfigBackup h w of
        (Some e, w1) \<Rightarrow> (CUnlock (Some e), w1)
      | (None, w1) \<Rightarrow> (CReadBase t f, w1))"
| "confNext h (CReadBase t f) w =
     (case os_ReadFile (hc_baseConfigFilePath h) w of
        (Inl e, w1) \<Rightarrow> (CUnlock (Some e), w1)
      | (Inr cfgContent, w1) \<Rightarrow>
          (CWrite f (snd (buff_Write (snd (buff_Write [] cfgContent))
             (hc_configMarshaller h (fst (NewHAProxyConfig t)) (hc_backendTlsCfg h)))), w1))"
| "confNext h (CWrite f buff) w =
     (case writeToConfig h buff w of
        (Some e, w1) \<Rightarrow> (CUnlock (Some e), w1)
      | (None, w1) \<Rightarrow> (CRun f, w1))"
| "confNext h (CRun f) w =
     (case hc_scriptRunner h of
        None \<Rightarrow> (CUnlock None, w)
      | Some run \<Rightarrow>
          (case run f w of
             (Some e, w1) \<Rightarrow> (CUnlock (Some e), w1)
           | (None, w1) \<Rightarrow> (CStart, w1)))"
| "confNext h CStart w = (CUnlock None, w\<lparr>rw_monitor := StartWatching (rw_monitor w)\<rparr>)"
| "confNext h pc w = (pc, w)"

record 'tag conf_sys =
  cy_world :: router_world
  cy_configFileLock :: "nat option"
  cy_pc :: "nat \<Rightarrow> 'tag conf_pc"
  cy_order :: "('tag RoutingTable \<times> bool) list"
  cy_results :: "go_error option list"

text \<open>\<open>cy_order\<close> and \<open>cy_results\<close> record the calls in the order in which they got the lock, and what
  they returned.\<close>

inductive confstep :: "Configurer \<Rightarrow> 'tag conf_sys \<Rightarrow> 'tag conf_sys \<Rightarrow> bool" for h where
  call: "cy_pc s i = CDone err \<Longrightarrow> confstep h s (s\<lparr>cy_pc := (cy_pc s)(i := CStop t f)\<rparr>)"
| stop: "cy_pc s i = CStop t f \<Longrightarrow> confNext h (CStop t f) (cy_world s) = (pc, w) \<Longrightarrow>
    confstep h s (s\<lparr>cy_world := w, cy_pc := (cy_pc s)(i := pc)\<rparr>)"
| lock: "cy_pc s i = CLock t f \<Longrightarrow> cy_configFileLock s = None \<Longrightarrow>
    confstep h s (s\<lparr>cy_configFileLock := Some i, cy_pc := (cy_pc s)(i := CBackup t f),
                    cy_order := cy_order s @ [(t, f)]\<rparr>)"
| inside: "cy_pc s i = p \<Longrightarrow> holding p \<Longrightarrow> (\<nexists>err. p = CUnlock err) \<Longrightarrow> confNext h p (cy_world s) = (pc, w) \<Longrightarrow>
    confstep h s (s\<lparr>cy_world := w, cy_pc := (cy_pc s)(i := pc)\<rparr>)"
| unlock: "cy_pc s i = CUnlock err \<Longrightarrow>
    confstep h s (s\<lparr>cy_configFileLock := None, cy_pc := (cy_pc s)(i := CDone err),
                    cy_results := cy_results s @ [err]\<rparr>)"

definition conf_init :: "router_world \<Rightarrow> 'tag conf_sys" where
  "conf_init w = \<lparr>cy_world = w, cy_configFileLock = None, cy_pc = (\<lambda>i. CDone None), cy_order = [], cy_results = []\<rparr>"

section \<open>The rest of a call\<close>

fun complete :: "Configurer \<Rightarrow> 'tag conf_pc \<Rightarrow> router_world \<Rightarrow> go_error option \<times> router_world" where
  "complete h (CUnlock err) w = (err, w)"
| "complete h CStart w = (None, w\<lparr>rw_monitor := StartWatching (rw_monitor w)\<rparr>)"
| "complete h (CRun f) w = reload h f w"
| "complete h (CWrite f buff) w =
     (case writeToConfig h buff w of (Some e, w1) \<Rightarrow> (Some e, w1) | (None, w1) \<Rightarrow> reload h f w1)"
| "complete h (CReadBase t f) w =
     (case os_ReadFile (hc_baseConfigFilePath h) w of
        (Inl e, w1) \<Rightarrow> (Some e, w1)
      | (Inr c, w1) \<Rightarrow>
          (case writeToConfig h (c @ hc_configMarshaller h (fst (NewHAProxyConfig t)) (hc_backendTlsCfg h)) w1 of
             (Some e, w2) \<Rightarrow> (Some e, w2) | (None, w2) \<Rightarrow> reload h f w2))"
| "complete h (CBackup t f) w =
     (case createConfigBackup h w of
        (Some e, w1) \<Rightarrow> (Some e, w1)
      | (None, w1) \<Rightarrow>
          (case os_ReadFile (hc_baseConfigFilePath h) w1 of
             (Inl e, w2) \<Rightarrow> (Some e, w2)
           | (Inr c, w2) \<Rightarrow>
               (case writeToConfig h (c @ hc_configMarshaller h (fst (NewHAProxyConfig t)) (hc_backendTlsCfg h)) w2 of
                  (Some e, w3) \<Rightarrow> (Some e, w3) | (None, w3) \<Rightarrow> reload h f w3)))"
| "complete h _ w = (None, w)"

lemma complete_Configure:
  "complete h (CBackup t f) (w\<lparr>rw_monitor := StopWatching (rw_monitor w)\<rparr>) = Configure h t f w"
  by (auto simp: Configure_split Let_def split: prod.splits option.splits sum.splits)

lemma complete_confNext:
  "holding p \<Longrightarrow> complete h p w = complete h (fst (confNext h p w)) (snd (confNext h p w))"
  by (cases "(h, p, w)" rule: confNext.cases)
     (auto simp: buff_Write_def reload_def split: prod.splits option.splits sum.splits)

lemma holding_confNext: "holding p \<Longrightarrow> holding (fst (confNext h p w))"
  by (cases "(h, p, w)" rule: confNext.cases) (auto split: prod.splits option.splits sum.splits)

section \<open>The monitor does not matter to the files\<close>

definition blind :: "router_world \<Rightarrow> router_world" where
  "blind w = w\<lparr>rw_monitor := Monitor_New []\<rparr>"

lemma blind_monitor [simp]: "blind (w\<lparr>rw_monitor := m\<rparr>) = blind w"
  by (simp add: blind_def)

lemma blind_eq_iff:
  "blind w = blind v \<longleftrightarrow> fs_files w = fs_files v \<and> fs_faults w = fs_faults v \<and> rw_commands w = rw_commands v"
proof
  assume "blind w = blind v"
  then have "fs_files (blind w) = fs_files (blind v)" "fs_faults (blind w) = fs_faults (blind v)"
    "rw_commands (blind w) = rw_commands (blind v)" by simp_all
  then show "fs_files w = fs_files v \<and> fs_faults w = fs_faults v \<and> rw_commands w = rw_commands v"
    by (simp add: blind_def)
next
  assume "fs_files w = fs_files v \<and> fs_faults w = fs_faults v \<and> rw_commands w = rw_commands v"
  then show "blind w = blind v" by (intro router_world.equality) (simp_all add: blind_def)
qed

text \<open>An operation that neither looks at the monitor nor lets it influence anything but itself.\<close>

definition blind_op :: "(router_world \<Rightarrow> 'r \<times> router_world) \<Rightarrow> bool" where
  "blind_op g \<longleftrightarrow> (\<forall>w v. blind w = blind v \<longrightarrow> fst (g w) = fst (g v) \<and> blind (snd (g w)) = blind (snd (g v)))"

lemma blind_opD:
  "blind_op g \<Longrightarrow> blind w = blind v \<Longrightarrow> fst (g w) = fst (g v) \<and> blind (snd (g w)) = blind (snd (g v))"
  unfolding blind_op_def by blast

lemma blind_takeFault: "blind_op takeFault"
  by (auto simp: blind_op_def takeFault_def blind_eq_iff split: list.splits)

lemma blind_bind:
  assumes "blind_op g" "\<And>r. blind_op (k r)"
  shows "blind_op (\<lambda>w. case g w of (r, w1) \<Rightarrow> k r w1)"
  using assms unfolding blind_op_def case_prod_beta by metis

lemma blind_pair: "blind_op (Pair r)"
  by (simp add: blind_op_def)

lemma blind_if: "blind_op g \<Longrightarrow> blind_op k \<Longrightarrow> blind_op (\<lambda>w. if b then g w else k w)"
  by (cases b) simp_all

lemma blind_option: "blind_op n \<Longrightarrow> (\<And>x. blind_op (s x)) \<Longrightarrow> blind_op (\<lambda>w. case x of None \<Rightarrow> n w | Some y \<Rightarrow> s y w)"
  by (cases x) simp_all

lemma blind_sum: "(\<And>x. blind_op (l x)) \<Longrightarrow> (\<And>x. blind_op (r x)) \<Longrightarrow> blind_op (\<lambda>w. case x of Inl y \<Rightarrow> l y w | Inr y \<Rightarrow> r y w)"
  by (cases x) simp_all

lemma blind_ReadFile: "blind_op (os_ReadFile path)"
  unfolding os_ReadFile_def Let_def
  by (rule blind_bind [OF blind_takeFault])
     (auto simp: blind_op_def blind_eq_iff split: option.splits)

lemma blind_WriteToFile: "blind_op (WriteToFile data path)"
proof -
  have "blind_op (os_Create path)" unfolding os_Create_def Let_def
    by (rule blind_bind [OF blind_takeFault]) (auto simp: blind_op_def blind_eq_iff split: option.splits)
  moreover have "blind_op (file_Write path data)" unfolding file_Write_def Let_def
    by (rule blind_bind [OF blind_takeFault]) (auto simp: blind_op_def blind_eq_iff split: fault.splits)
  moreover have "blind_op file_Close" unfolding file_Close_def Let_def
    by (rule blind_bind [OF blind_takeFault blind_pair])
  ultimately show ?thesis
    unfolding WriteToFile_def by (intro blind_bind blind_option blind_pair)
qed

lemma blind_Rename: "blind_op (os_Rename src dst)"
  unfolding os_Rename_def Let_def
  by (rule blind_bind [OF blind_takeFault]) (auto simp: blind_op_def blind_eq_iff split: option.splits)

lemma blind_backup: "blind_op (createConfigBackup h)"
  unfolding createConfigBackup_def
  by (intro blind_bind blind_sum blind_option blind_pair blind_ReadFile blind_WriteToFile)

lemma blind_write: "blind_op (writeToConfig h c)"
  unfolding writeToConfig_def Let_def
  by (intro blind_bind blind_option blind_pair blind_WriteToFile blind_Rename)

lemma blind_CommandRunner: "blind_op (CommandRunner_Run script cmd f)"
  by (auto simp: blind_op_def CommandRunner_Run_def cmd_CombinedOutput_def blind_eq_iff Let_def split: prod.splits)

lemma blind_set_monitor: "blind_op (\<lambda>w. (r, w\<lparr>rw_monitor := g (rw_monitor w)\<rparr>))"
  by (simp add: blind_op_def)

definition blind_runner :: "Configurer \<Rightarrow> bool" where
  "blind_runner h \<longleftrightarrow> (\<forall>run f. hc_scriptRunner h = Some run \<longrightarrow> blind_op (run f))"

lemma blind_confNext:
  assumes "blind_runner h" "blind w = blind v"
  shows "fst (confNext h p w) = fst (confNext h p v) \<and> blind (snd (confNext h p w)) = blind (snd (confNext h p v))"
proof (cases p)
  case (CBackup t f)
  then show ?thesis using blind_opD [OF blind_backup assms(2), of h] by (auto split: prod.splits option.splits)
next
  case (CReadBase t f)
  then show ?thesis
    using blind_opD [OF blind_ReadFile assms(2), of "hc_baseConfigFilePath h"] by (auto split: prod.splits sum.splits)
next
  case (CWrite f buff)
  then show ?thesis using blind_opD [OF blind_write assms(2), of h buff] by (auto split: prod.splits option.splits)
next
  case (CRun f')
  show ?thesis
  proof (cases "hc_scriptRunner h")
    case None
    then show ?thesis using CRun assms(2) by simp
  next
    case (Some run)
    then have "blind_op (run f')" using assms(1) by (simp add: blind_runner_def)
    from blind_opD [OF this assms(2)] show ?thesis using CRun Some by (auto split: prod.splits option.splits)
  qed
qed (use assms(2) in auto)

fun rank :: "'tag conf_pc \<Rightarrow> nat" where
  "rank (CBackup t f) = 5" | "rank (CReadBase t f) = 4" | "rank (CWrite f buff) = 3"
| "rank (CRun f) = 2" | "rank CStart = 1" | "rank _ = 0"

lemma rank_confNext: "0 < rank p \<Longrightarrow> rank (fst (confNext h p w)) < rank p"
  by (cases "(h, p, w)" rule: confNext.cases) (auto split: prod.splits option.splits sum.splits)

lemma complete_blind:
  assumes "blind_runner h" "holding p" "blind w = blind v"
  shows "fst (complete h p w) = fst (complete h p v) \<and> blind (snd (complete h p w)) = blind (snd (complete h p v))"
  using assms(2,3)
proof (induction p arbitrary: w v rule: measure_induct_rule [of rank])
  case (less p)
  show ?case
  proof (cases "rank p = 0")
    case True
    then obtain err where "p = CUnlock err" using less.prems(1) by (cases p) simp_all
    then show ?thesis using less.prems by simp
  next
    case False
    note next_eq = blind_confNext [OF assms(1) less.prems(2), of p]
    have "rank (fst (confNext h p w)) < rank p" using False rank_confNext [of p h w] by simp
    from less.IH [OF this holding_confNext [OF less.prems(1)], of "snd (confNext h p w)" "snd (confNext h p v)"]
    show ?thesis using next_eq complete_confNext [OF less.prems(1), of h] by metis
  qed
qed

section \<open>Concurrent calls take effect one after the other\<close>

text \<open>The same calls made one after the other: their errors and the world they leave.\<close>

fun serial :: "Configurer \<Rightarrow> ('tag RoutingTable \<times> bool) list \<Rightarrow> router_world \<Rightarrow> go_error option list \<times> router_world" where
  "serial h [] w = ([], w)"
| "serial h ((t, f) # cs) w =
     (let (err, w1) = Configure h t f w; (errs, w2) = serial h cs w1 in (err # errs, w2))"

lemma serial_snoc:
  "serial h (cs @ [(t, f)]) w =
     (fst (serial h cs w) @ [fst (Configure h t f (snd (serial h cs w)))], snd (Configure h t f (snd (serial h cs w))))"
  by (induction cs arbitrary: w) (auto simp: case_prod_beta Let_def)

definition conf_inv :: "Configurer \<Rightarrow> router_world \<Rightarrow> 'tag conf_sys \<Rightarrow> bool" where
  "conf_inv h w0 s \<longleftrightarrow> (\<forall>i. holding (cy_pc s i) \<longleftrightarrow> cy_configFileLock s = Some i)
     \<and> (case cy_configFileLock s of
          None \<Rightarrow> cy_results s = fst (serial h (cy_order s) w0)
            \<and> blind (cy_world s) = blind (snd (serial h (cy_order s) w0))
        | Some i \<Rightarrow> cy_results s @ [fst (complete h (cy_pc s i) (cy_world s))] = fst (serial h (cy_order s) w0)
            \<and> blind (snd (complete h (cy_pc s i) (cy_world s))) = blind (snd (serial h (cy_order s) w0)))"

lemma confstep_inv:
  assumes "confstep h s s'" "conf_inv h w0 s" "blind_runner h"
  shows "conf_inv h w0 s'"
  using assms
proof (induction rule: confstep.induct)
  case (call s i err t f)
  then have "cy_configFileLock s \<noteq> Some i" by (metis conf_inv_def holding.simps(3))
  then show ?case using call by (auto simp: conf_inv_def split: option.splits)
next
  case (stop s i t f pc w)
  then have i: "cy_configFileLock s \<noteq> Some i" by (metis conf_inv_def holding.simps(1))
  have pc: "pc = CLock t f" "w = (cy_world s)\<lparr>rw_monitor := StopWatching (rw_monitor (cy_world s))\<rparr>" using stop(2) by auto
  have "blind w = blind (cy_world s)" by (simp add: pc(2))
  moreover have "holding (cy_pc s j)" if "cy_configFileLock s = Some j" for j
    using stop.prems(1) that by (simp add: conf_inv_def)
  ultimately have "fst (complete h (cy_pc s j) w) = fst (complete h (cy_pc s j) (cy_world s))
      \<and> blind (snd (complete h (cy_pc s j) w)) = blind (snd (complete h (cy_pc s j) (cy_world s)))"
    if "cy_configFileLock s = Some j" for j
    using complete_blind [OF stop.prems(2)] that by blast
  then show ?case using stop i pc(1) \<open>blind w = blind (cy_world s)\<close>
    by (auto simp: conf_inv_def split: option.splits)
next
  case (lock s i t f)
  let ?v = "snd (serial h (cy_order s) w0)"
  have eq: "blind (cy_world s) = blind ?v" "cy_results s = fst (serial h (cy_order s) w0)"
    using lock by (simp_all add: conf_inv_def)
  then have "blind (cy_world s) = blind (?v\<lparr>rw_monitor := StopWatching (rw_monitor ?v)\<rparr>)" by simp
  from complete_blind [OF lock.prems(2) _ this, of "CBackup t f"]
  have "fst (complete h (CBackup t f) (cy_world s)) = fst (Configure h t f ?v)
      \<and> blind (snd (complete h (CBackup t f) (cy_world s))) = blind (snd (Configure h t f ?v))"
    by (simp only: complete_Configure holding.simps simp_thms)
  then show ?case using lock eq by (auto simp: conf_inv_def serial_snoc simp del: complete.simps split: option.splits)
next
  case (inside s i p pc w)
  then have lk: "cy_configFileLock s = Some i" by (auto simp: conf_inv_def)
  have "holding pc" using holding_confNext [OF inside(2), of h "cy_world s"] inside(4) by simp
  moreover have "complete h p (cy_world s) = complete h pc w"
    using complete_confNext [OF inside(2), of h "cy_world s"] inside(4) by simp
  ultimately show ?case using inside lk by (auto simp: conf_inv_def)
next
  case (unlock s i err)
  then have "cy_configFileLock s = Some i" by (metis conf_inv_def holding.simps(9))
  then show ?case using unlock by (auto simp: conf_inv_def)
qed

lemma conf_inv_reachable:
  assumes "(confstep h)\<^sup>*\<^sup>* (conf_init w) s" "blind_runner h"
  shows "conf_inv h w s"
  using assms(1)
proof (induction rule: rtranclp_induct)
  case base
  show ?case by (simp add: conf_inv_def conf_init_def)
next
  case (step s s')
  then show ?case using confstep_inv assms(2) by blast
qed

lemma blind_with_script: "blind_runner (with_script script path h)"
  by (simp add: blind_runner_def with_script_def blind_CommandRunner)

text \<open>(C12) However calls of \<open>Configure\<close> overlap, at most one of them is between the lock and the
  unlock, and whenever none is, the files, the faults met and the commands run are those of the
  same calls made one after the other in the order in which they got the lock, and so are the
  errors they returned.\<close>

theorem configure_serialises:
  assumes "(confstep (with_script script path h))\<^sup>*\<^sup>* (conf_init w) s"
  shows "(\<forall>i j. holding (cy_pc s i) \<and> holding (cy_pc s j) \<longrightarrow> i = j)
    \<and> (cy_configFileLock s = None \<longrightarrow>
        (let (errs, w') = serial (with_script script path h) (cy_order s) w in
         cy_results s = errs \<and> fs_files (cy_world s) = fs_files w' \<and> fs_faults (cy_world s) = fs_faults w'
         \<and> rw_commands (cy_world s) = rw_commands w'))"
proof -
  have inv: "conf_inv (with_script script path h) w s"
    by (rule conf_inv_reachable [OF assms blind_with_script])
  then have "\<forall>i j. holding (cy_pc s i) \<and> holding (cy_pc s j) \<longrightarrow> i = j" by (auto simp: conf_inv_def)
  then show ?thesis using inv by (auto simp: conf_inv_def blind_eq_iff Let_def split: prod.splits)
qed

text \<open>A call that runs without another step in between: to the end, and up to the reload.\<close>

lemma run_to_unlock:
  assumes "holding (cy_pc s i)"
  shows "(confstep h)\<^sup>*\<^sup>* s (s\<lparr>cy_world := snd (complete h (cy_pc s i) (cy_world s)),
    cy_pc := (cy_pc s)(i := CUnlock (fst (complete h (cy_pc s i) (cy_world s))))\<rparr>)"
  using assms
proof (induction "rank (cy_pc s i)" arbitrary: s rule: less_induct)
  case less
  show ?case
  proof (cases "rank (cy_pc s i) = 0")
    case True
    then obtain err where p: "cy_pc s i = CUnlock err" using less.prems by (cases "cy_pc s i") simp_all
    have "s\<lparr>cy_world := cy_world s, cy_pc := (cy_pc s)(i := CUnlock err)\<rparr> = s" using p by (simp add: fun_upd_idem)
    then show ?thesis using p by simp
  next
    case False
    let ?n = "confNext h (cy_pc s i) (cy_world s)"
    let ?s = "s\<lparr>cy_world := snd ?n, cy_pc := (cy_pc s)(i := fst ?n)\<rparr>"
    have "\<nexists>err. cy_pc s i = CUnlock err" using False by auto
    then have "confstep h s ?s" using inside [OF refl less.prems, of h] by simp
    moreover have "rank (cy_pc ?s i) < rank (cy_pc s i)" using rank_confNext [of "cy_pc s i"] False by simp
    note less.hyps [OF this]
    ultimately show ?thesis
      using holding_confNext [OF less.prems, of h "cy_world s"] complete_confNext [OF less.prems, of h "cy_world s"]
      by (auto intro: converse_rtranclp_into_rtranclp)
  qed
qed

lemma run_to_reload:
  assumes "cy_pc s i = CBackup t f" "fs_faults (cy_world s) = []" "fs_files (cy_world s) (hc_configFilePath h) = Some old"
    "fs_files (cy_world s) (hc_baseConfigFilePath h) = Some base" "hc_baseConfigFilePath h \<noteq> bak_path h"
  shows "\<exists>s'. (confstep h)\<^sup>*\<^sup>* s s' \<and> cy_pc s' i = CRun f \<and> rw_monitor (cy_world s') = rw_monitor (cy_world s)
    \<and> cy_order s' = cy_order s"
proof -
  let ?w = "cy_world s"
  let ?w1 = "?w\<lparr>fs_files := (fs_files ?w)(bak_path h \<mapsto> old)\<rparr>"
  let ?buf = "base @ hc_configMarshaller h (fst (NewHAProxyConfig t)) (hc_backendTlsCfg h)"
  let ?s1 = "s\<lparr>cy_world := ?w1, cy_pc := (cy_pc s)(i := CReadBase t f)\<rparr>"
  let ?s2 = "?s1\<lparr>cy_world := ?w1, cy_pc := (cy_pc ?s1)(i := CWrite f ?buf)\<rparr>"
  have "createConfigBackup h ?w = (None, ?w1)" using assms by (simp add: createConfigBackup_def)
  then have "confstep h s ?s1" using inside [of s i "CBackup t f" h] assms(1) by simp
  moreover have "confNext h (CReadBase t f) ?w1 = (CWrite f ?buf, ?w1)"
    using assms by (simp add: buff_Write_def)
  then have "confstep h ?s1 ?s2" using inside [of ?s1 i "CReadBase t f" h] by simp
  moreover obtain w3 where w3: "writeToConfig h ?buf ?w1 = (None, w3)"
    using assms(2) by (simp add: writeToConfig_def Let_def)
  then have "rw_monitor w3 = rw_monitor ?w" using write_more [of h ?buf ?w1] router_more [of w3 ?w1] by simp
  moreover have "confstep h ?s2 (?s2\<lparr>cy_world := w3, cy_pc := (cy_pc ?s2)(i := CRun f)\<rparr>)"
    using inside [of ?s2 i "CWrite f ?buf" h] w3 by simp
  ultimately show ?thesis by (intro exI [of _ "?s2\<lparr>cy_world := w3, cy_pc := (cy_pc ?s2)(i := CRun f)\<rparr>"]) auto
qed

text \<open>An event's call and a drain's call that both stop the monitor before the first gets the lock:
  the state in which the first call has returned and the second is about to lock.\<close>

definition first_done :: "nat RoutingTable \<Rightarrow> nat conf_sys" where
  "first_done t = (conf_init (snd (Configure sample_configurer t False sample_world)))
     \<lparr>cy_pc := (\<lambda>i. if i = 0 then CDone None else if i = 2 then CLock t True else CDone None),
      cy_order := [(t, False)], cy_results := [None]\<rparr>"

lemma sample_Configure:
  "Configure sample_configurer t f sample_world = (None, sample_world
     \<lparr>fs_files := files_written sample_configurer t (fs_files sample_world),
      rw_commands := [\<lparr>cmd_path = ''reload'', cmd_env = (if f then Some [''IS_DRAINING=true''] else None),
        cmd_files = files_written sample_configurer t (fs_files sample_world)\<rparr>],
      rw_monitor := StartWatching (StopWatching (rw_monitor sample_world))\<rparr>)"
proof -
  have h: "fs_faults sample_world = []" "fs_files sample_world (hc_configFilePath sample_configurer) = Some ''old''"
      "fs_files sample_world (hc_baseConfigFilePath sample_configurer) = Some ''global''"
      "hc_baseConfigFilePath sample_configurer \<noteq> bak_path sample_configurer"
      "hc_scriptRunner sample_configurer = Some (CommandRunner_Run (\<lambda>path env files. (None, files)) (CreateCommandRunner ''reload''))"
    by (simp_all add: sample_configurer_def sample_world_def)
  show ?thesis
    using Configure_no_faults [OF h(1-4), of t f] reload_command [OF h(5) refl]
    by (simp add: Let_def sample_world_def)
qed

lemma first_done_world:
  "cy_world (first_done t) = sample_world
     \<lparr>fs_files := files_written sample_configurer t (fs_files sample_world),
      rw_commands := [\<lparr>cmd_path = ''reload'', cmd_env = None,
        cmd_files = files_written sample_configurer t (fs_files sample_world)\<rparr>],
      rw_monitor := StartWatching (StopWatching (rw_monitor sample_world))\<rparr>"
  by (simp add: first_done_def conf_init_def sample_Configure)

lemma first_done_reached: "(confstep sample_configurer)\<^sup>*\<^sup>* (conf_init sample_world) (first_done t)"
proof -
  let ?h = sample_configurer
  let ?w = "sample_world\<lparr>rw_monitor := StopWatching (rw_monitor sample_world)\<rparr>"
  let ?s = "conf_init sample_world :: nat conf_sys"
  let ?s1 = "?s\<lparr>cy_pc := (cy_pc ?s)(0 := CStop t False)\<rparr>"
  let ?s2 = "?s1\<lparr>cy_pc := (cy_pc ?s1)(2 := CStop t True)\<rparr>"
  let ?s3 = "?s2\<lparr>cy_world := ?w, cy_pc := (cy_pc ?s2)(0 := CLock t False)\<rparr>"
  let ?s4 = "?s3\<lparr>cy_world := ?w, cy_pc := (cy_pc ?s3)(2 := CLock t True)\<rparr>"
  let ?s5 = "?s4\<lparr>cy_configFileLock := Some 0, cy_pc := (cy_pc ?s4)(0 := CBackup t False), cy_order := [(t, False)]\<rparr>"
  let ?s6 = "?s5\<lparr>cy_world := snd (complete ?h (cy_pc ?s5 0) (cy_world ?s5)),
    cy_pc := (cy_pc ?s5)(0 := CUnlock (fst (complete ?h (cy_pc ?s5 0) (cy_world ?s5))))\<rparr>"
  have c: "complete ?h (CBackup t False) ?w = Configure ?h t False sample_world" by (rule complete_Configure)
  have "confstep ?h ?s ?s1" using call [of ?s 0 None] by (simp add: conf_init_def)
  moreover have "confstep ?h ?s1 ?s2" using call [of ?s1 2 None] by (simp add: conf_init_def)
  moreover have "confstep ?h ?s2 ?s3" using stop [of ?s2 0 t False] by (simp add: conf_init_def)
  moreover have "confstep ?h ?s3 ?s4" using stop [of ?s3 2 t True] by (simp add: conf_init_def StopWatching_def)
  moreover have "confstep ?h ?s4 ?s5" using lock [of ?s4 0 t False] by (simp add: conf_init_def)
  ultimately have "(confstep ?h)\<^sup>*\<^sup>* ?s ?s5" by (meson r_into_rtranclp rtranclp.rtrancl_into_rtrancl)
  moreover have "(confstep ?h)\<^sup>*\<^sup>* ?s5 ?s6" by (rule run_to_unlock) simp
  moreover have pc6: "cy_pc ?s6 0 = CUnlock None" by (simp add: c sample_Configure del: complete.simps)
  then have "confstep ?h ?s6 (?s6\<lparr>cy_configFileLock := None, cy_pc := (cy_pc ?s6)(0 := CDone None), cy_results := cy_results ?s6 @ [None]\<rparr>)"
    by (rule unlock)
  moreover have "?s6\<lparr>cy_configFileLock := None, cy_pc := (cy_pc ?s6)(0 := CDone None), cy_results := cy_results ?s6 @ [None]\<rparr>
      = first_done t"
    by (auto simp: first_done_def conf_init_def c simp del: complete.simps)
  ultimately show ?thesis by (metis (no_types, lifting) rtranclp.rtrancl_into_rtrancl rtranclp_trans)
qed

text \<open>The monitor can be watching while HAProxy is being reloaded: a call that has stopped the
  monitor and waits for the lock does not stop it again after the call before it has started it.
  Here an event's call and a drain's call overlap.\<close>

lemma reload_while_watching:
  "\<exists>s. (confstep sample_configurer)\<^sup>*\<^sup>* (conf_init sample_world) s \<and> cy_pc s 2 = CRun True
     \<and> stopWatching (rw_monitor (cy_world s)) = 0 \<and> cy_order s = [(sample_table, False), (sample_table, True)]"
proof -
  let ?h = sample_configurer and ?t = sample_table
  let ?s = "first_done ?t"
  let ?s1 = "?s\<lparr>cy_configFileLock := Some 2, cy_pc := (cy_pc ?s)(2 := CBackup ?t True), cy_order := cy_order ?s @ [(?t, True)]\<rparr>"
  have "confstep ?h ?s ?s1" by (rule lock) (simp_all add: first_done_def conf_init_def)
  moreover have "fs_faults (cy_world ?s1) = []" "fs_files (cy_world ?s1) (hc_configFilePath ?h) \<noteq> None"
      "fs_files (cy_world ?s1) (hc_baseConfigFilePath ?h) = Some ''global''" "hc_baseConfigFilePath ?h \<noteq> bak_path ?h"
      "stopWatching (rw_monitor (cy_world ?s1)) = 0" "cy_order ?s1 = [(?t, False), (?t, True)]"
    by (simp_all add: first_done_world files_written_def new_config_def sample_world_def sample_configurer_def
        StartWatching_def) (simp add: first_done_def)
  moreover obtain s' where "(confstep ?h)\<^sup>*\<^sup>* ?s1 s'" "cy_pc s' 2 = CRun True"
      "rw_monitor (cy_world s') = rw_monitor (cy_world ?s1)" "cy_order s' = cy_order ?s1"
    using run_to_reload [of ?s1 2 ?t True ?h] calculation by auto
  ultimately show ?thesis using first_done_reached [of ?t]
    by (intro exI [of _ s']) (auto intro: rtranclp_trans converse_rtranclp_into_rtranclp)
qed

theorem configure_serialises_witness:
  "(confstep sample_configurer)\<^sup>*\<^sup>* (conf_init sample_world) (first_done sample_table)
   \<and> cy_results (first_done sample_table) = fst (serial sample_configurer [(sample_table, False)] sample_world)
   \<and> rw_commands (cy_world (first_done sample_table)) =
       rw_commands (snd (serial sample_configurer [(sample_table, False)] sample_world))"
proof -
  have h: "sample_configurer = with_script (\<lambda>path env files. (None, files)) ''reload'' sample_configurer"
    by (simp add: with_script_def sample_configurer_def)
  have "cy_configFileLock (first_done sample_table) = None" "cy_order (first_done sample_table) = [(sample_table, False)]"
    by (simp_all add: first_done_def conf_init_def)
  then show ?thesis
    using configure_serialises [OF first_done_reached [of sample_table, unfolded arg_cong [OF h, of confstep]]]
      first_done_reached [of sample_table] h
    by (simp add: case_prod_beta Let_def)
qed

end
