(* ===== verification/Updater_Concurrency.thy ===== *)
theory Updater_Concurrency
  imports Updater
begin

text \<open>
  The updater under concurrency. \<open>main.go\<close> and \<open>watcher/watcher.go\<close> call its methods from
  several goroutines: events from the watcher, a new goroutine for every sync and for every
  drain, the pruner from its own. A state holds the updater, the world, the holder of the mutex
  \<open>u.lock\<close> and the point each goroutine has reached; a step is what one goroutine does between
  two points at which others can get in. What is done under the mutex is one step and the
  operations are those of \<open>Updater\<close>; the merge of the fetched routes and the call to the
  configurer in \<open>Drain\<close>, which the code does without the mutex, are steps of their own, the merge
  one mapping at a time.
\<close>

section \<open>The step relation\<close>

datatype 'tag pc =
    Idle
  | HandleLock "'tag TcpEvent" | HandleBody "'tag TcpEvent"
  | PruneLock | PruneBody
  | SyncLock | SyncBody | SyncFetch
  | SyncMerge "'tag TcpRouteMapping list" "'tag RoutingTable" bool
  | SyncEndLock bool | SyncEndBody bool
  | DrainPoll | DrainCheck | DrainSetLock | DrainSetBody | DrainRead | DrainConfigure bool | DrainSleep

record ('tag, 'w) sys =
  cs_u :: "'tag updater"
  cs_w :: 'w
  cs_lock :: "nat option"
  cs_pc :: "nat \<Rightarrow> 'tag pc"

text \<open>The first point of each operation, and the points at which a goroutine waits for the mutex
  with the ones it reaches by getting it.\<close>

fun entry_point :: "'tag pc \<Rightarrow> bool" where
  "entry_point (HandleLock e) = True"
| "entry_point PruneLock = True"
| "entry_point SyncLock = True"
| "entry_point DrainPoll = True"
| "entry_point _ = False"

fun locked_at :: "'tag pc \<Rightarrow> 'tag pc option" where
  "locked_at (HandleLock e) = Some (HandleBody e)"
| "locked_at PruneLock = Some PruneBody"
| "locked_at SyncLock = Some SyncBody"
| "locked_at (SyncEndLock c) = Some (SyncEndBody c)"
| "locked_at DrainSetLock = Some DrainSetBody"
| "locked_at _ = None"

definition goes :: "('tag, 'w) sys \<Rightarrow> nat \<Rightarrow> 'tag pc \<Rightarrow> ('tag, 'w) sys" where
  "goes s i pc = s\<lparr>cs_pc := (cs_pc s)(i := pc)\<rparr>"

text \<open>A step of goroutine \<open>i\<close> under the mutex: new updater and world, the mutex released.\<close>

definition unlocks :: "('tag, 'w) sys \<Rightarrow> nat \<Rightarrow> 'tag updater \<times> 'w \<Rightarrow> 'tag pc \<Rightarrow> ('tag, 'w) sys" where
  "unlocks s i st pc = (goes s i pc)\<lparr>cs_u := fst st, cs_w := snd st, cs_lock := None\<rparr>"

definition mergeOne ::
  "('tag, 'w) services \<Rightarrow> 'tag TcpRouteMapping \<Rightarrow> 'tag RoutingTable \<Rightarrow> bool \<Rightarrow> 'tag updater
   \<Rightarrow> 'tag updater \<times> 'tag RoutingTable \<times> bool" where
  "mergeOne S m fresh c u =
     (let (t, f, c', n) = mergeLoop S [m] (up_tick u) (up_routingTable u) fresh c
      in (u\<lparr>up_routingTable := t, up_tick := n\<rparr>, f, c'))"

definition mergeEnd :: "'tag RoutingTable \<Rightarrow> bool \<Rightarrow> 'tag updater \<Rightarrow> 'tag updater \<times> bool" where
  "mergeEnd fresh c u =
     (if Size fresh \<noteq> Size (up_routingTable u)
      then (u\<lparr>up_routingTable := (up_routingTable u)\<lparr>Entries := Entries fresh\<rparr>\<rparr>, True)
      else (u, c))"

inductive cstep :: "('tag, 'w) services \<Rightarrow> ('tag, 'w) sys \<Rightarrow> ('tag, 'w) sys \<Rightarrow> bool"
  for S :: "('tag, 'w) services" where
  start: "cs_pc s i = Idle \<Longrightarrow> entry_point pc \<Longrightarrow> cstep S s (goes s i pc)"
| acquire: "locked_at (cs_pc s i) = Some pc \<Longrightarrow> cs_lock s = None \<Longrightarrow>
    cstep S s ((goes s i pc)\<lparr>cs_lock := Some i\<rparr>)"
| handle: "cs_pc s i = HandleBody e \<Longrightarrow>
    cstep S s (unlocks s i (snd (HandleEvent S e (cs_u s, cs_w s))) Idle)"
| prune: "cs_pc s i = PruneBody \<Longrightarrow>
    cstep S s (unlocks s i (PruneStaleRoutes S (cs_u s), cs_w s) Idle)"
| sync_begin: "cs_pc s i = SyncBody \<Longrightarrow>
    cstep S s (unlocks s i (syncBegin (cs_u s), cs_w s) SyncFetch)"
| sync_fetch: "cs_pc s i = SyncFetch \<Longrightarrow> fetchRoutes S (cs_w s) = (r, w) \<Longrightarrow>
    cstep S s ((goes s i (case r of Some (Inr ms) \<Rightarrow> SyncMerge ms NewRoutingTable False
       | _ \<Rightarrow> SyncEndLock False))\<lparr>cs_w := w\<rparr>)"
| merge_one: "cs_pc s i = SyncMerge (m # ms) fresh c \<Longrightarrow> mergeOne S m fresh c (cs_u s) = (u, fresh', c') \<Longrightarrow>
    cstep S s ((goes s i (SyncMerge ms fresh' c'))\<lparr>cs_u := u\<rparr>)"
| merge_end: "cs_pc s i = SyncMerge [] fresh c \<Longrightarrow> mergeEnd fresh c (cs_u s) = (u, c') \<Longrightarrow>
    cstep S s ((goes s i (SyncEndLock c'))\<lparr>cs_u := u\<rparr>)"
| sync_end: "cs_pc s i = SyncEndBody c \<Longrightarrow>
    cstep S s (unlocks s i (syncEnd S c (cs_u s, cs_w s)) Idle)"
| drain_poll: "cs_pc s i = DrainPoll \<Longrightarrow> cs_lock s = None \<Longrightarrow>
    cstep S s (goes s i (if Syncing (cs_u s) then DrainPoll else DrainCheck))"
| drain_check: "cs_pc s i = DrainCheck \<Longrightarrow> cs_lock s = None \<Longrightarrow>
    cstep S s (goes s i (if IsDraining (cs_u s) then Idle else DrainSetLock))"
| drain_set: "cs_pc s i = DrainSetBody \<Longrightarrow>
    cstep S s (unlocks s i ((cs_u s)\<lparr>up_isDraining := True\<rparr>, cs_w s) DrainRead)"
| drain_read: "cs_pc s i = DrainRead \<Longrightarrow> cs_lock s = None \<Longrightarrow>
    cstep S s (goes s i (DrainConfigure (IsDraining (cs_u s))))"
| drain_configure: "cs_pc s i = DrainConfigure f \<Longrightarrow>
    sv_Configure S (up_routingTable (cs_u s)) f (cs_w s) = (err, w) \<Longrightarrow>
    cstep S s ((goes s i (if err \<noteq> None then Idle else DrainSleep))\<lparr>cs_w := w\<rparr>)"
| drain_sleep: "cs_pc s i = DrainSleep \<Longrightarrow> cstep S s (goes s i Idle)"

definition initial :: "'tag RoutingTable \<Rightarrow> int \<Rightarrow> duration \<Rightarrow> 'w \<Rightarrow> ('tag, 'w) sys" where
  "initial table defaultTTL drainWaitDuration w =
     \<lparr>cs_u = NewUpdater table defaultTTL drainWaitDuration, cs_w = w, cs_lock = None, cs_pc = (\<lambda>_. Idle)\<rparr>"

abbreviation steps :: "('tag, 'w) services \<Rightarrow> ('tag, 'w) sys \<Rightarrow> ('tag, 'w) sys \<Rightarrow> bool" where
  "steps S \<equiv> (cstep S)\<^sup>*\<^sup>*"

lemma sys_simps [simp]:
  "cs_u (goes s i pc) = cs_u s" "cs_w (goes s i pc) = cs_w s" "cs_lock (goes s i pc) = cs_lock s"
  "cs_pc (goes s i pc) = (cs_pc s)(i := pc)"
  "cs_u (unlocks s i st pc) = fst st" "cs_w (unlocks s i st pc) = snd st"
  "cs_lock (unlocks s i st pc) = None" "cs_pc (unlocks s i st pc) = (cs_pc s)(i := pc)"
  by (simp_all add: goes_def unlocks_def)

text \<open>An invariant: it holds at the start and every step keeps it.\<close>

lemma steps_invariant:
  assumes "steps S s s'" "I s" "\<And>a b. cstep S a b \<Longrightarrow> I a \<Longrightarrow> I b" shows "I s'"
  using assms(1,2) by (induction rule: rtranclp_induct) (auto intro: assms(3))

section \<open>The mutex\<close>

fun holds_lock :: "'tag pc \<Rightarrow> bool" where
  "holds_lock (HandleBody e) = True"
| "holds_lock PruneBody = True"
| "holds_lock SyncBody = True"
| "holds_lock (SyncEndBody c) = True"
| "holds_lock DrainSetBody = True"
| "holds_lock _ = False"

definition mutex_inv :: "('tag, 'w) sys \<Rightarrow> bool" where
  "mutex_inv s \<longleftrightarrow> (\<forall>i. holds_lock (cs_pc s i) \<longleftrightarrow> cs_lock s = Some i)"

lemma entry_not_locked: "entry_point pc \<Longrightarrow> \<not> holds_lock pc"
  by (cases pc) auto

lemma locked_at_holds: "locked_at p = Some pc \<Longrightarrow> holds_lock pc \<and> \<not> holds_lock p"
  by (cases p) auto

lemma mutex_quiet:
  assumes "mutex_inv s" "\<not> holds_lock (cs_pc s i)" "\<not> holds_lock pc"
    "cs_pc s' = (cs_pc s)(i := pc)" "cs_lock s' = cs_lock s"
  shows "mutex_inv s'"
proof -
  have "cs_lock s \<noteq> Some i" using assms(1,2) by (metis mutex_inv_def)
  then show ?thesis using assms by (auto simp: mutex_inv_def)
qed

lemma mutex_unlocks:
  assumes "mutex_inv s" "holds_lock (cs_pc s i)" "\<not> holds_lock pc"
  shows "mutex_inv (unlocks s i st pc)"
proof -
  have "cs_lock s = Some i" using assms(1,2) by (metis mutex_inv_def)
  then show ?thesis using assms by (auto simp: mutex_inv_def)
qed

lemma mutex_step: "cstep S s s' \<Longrightarrow> mutex_inv s \<Longrightarrow> mutex_inv s'"
proof (induction rule: cstep.induct)
  case (start s i pc)
  show ?case
    by (rule mutex_quiet [OF start.prems, of i pc])
      (simp_all add: start.hyps(1) entry_not_locked [OF start.hyps(2)])
next
  case (acquire s i pc)
  then have "holds_lock pc" "\<And>j. \<not> holds_lock (cs_pc s j)"
    using locked_at_holds [OF acquire.hyps(1)] by (auto simp: mutex_inv_def)
  then show ?case by (simp add: mutex_inv_def)
next
  case (sync_fetch s i r w)
  show ?case
    by (rule mutex_quiet [OF sync_fetch.prems, of i]) (auto simp: sync_fetch.hyps split: option.splits sum.splits)
next
  case (merge_one s i m ms fresh c u fresh' c')
  show ?case
    by (rule mutex_quiet [OF merge_one.prems, of i]) (auto simp: merge_one.hyps)
next
  case (merge_end s i fresh c u c')
  show ?case
    by (rule mutex_quiet [OF merge_end.prems, of i]) (auto simp: merge_end.hyps)
next
  case (drain_configure s i f err w)
  show ?case
    by (rule mutex_quiet [OF drain_configure.prems, of i]) (auto simp: drain_configure.hyps)
next
  case (drain_sleep s i)
  show ?case
    by (rule mutex_quiet [OF drain_sleep.prems, of i]) (auto simp: drain_sleep.hyps)
next
  case (drain_poll s i)
  show ?case
    by (rule mutex_quiet [OF drain_poll.prems, of i]) (auto simp: drain_poll.hyps)
next
  case (drain_check s i)
  show ?case
    by (rule mutex_quiet [OF drain_check.prems, of i]) (auto simp: drain_check.hyps)
next
  case (drain_read s i)
  show ?case
    by (rule mutex_quiet [OF drain_read.prems, of i]) (auto simp: drain_read.hyps)
qed (simp_all add: mutex_unlocks)

lemma mutex_initial: "mutex_inv (initial t ttl d w)"
  by (simp add: mutex_inv_def initial_def)

text \<open>The points whose next step may change the routing table.\<close>

fun writes_table :: "'tag pc \<Rightarrow> bool" where
  "writes_table (HandleBody e) = True"
| "writes_table PruneBody = True"
| "writes_table (SyncMerge ms fresh c) = True"
| "writes_table (SyncEndBody c) = True"
| "writes_table _ = False"

definition merging :: "'tag pc \<Rightarrow> bool" where
  "merging pc \<longleftrightarrow> (\<exists>ms fresh c. pc = SyncMerge ms fresh c)"

lemma writes_table_iff: "writes_table pc \<Longrightarrow> holds_lock pc \<or> merging pc"
  by (cases pc) (auto simp: merging_def)

text \<open>(C15) At most one goroutine is in a section protected by the mutex, so two goroutines can be
  about to change the routing table at the same time only if one of them is merging fetched
  routes, which a sync does without the mutex.\<close>

theorem writers_exclude_each_other:
  assumes "steps S (initial t ttl d w) s" "i \<noteq> j"
  shows "\<not> (holds_lock (cs_pc s i) \<and> holds_lock (cs_pc s j))
    \<and> (writes_table (cs_pc s i) \<and> writes_table (cs_pc s j) \<longrightarrow> merging (cs_pc s i) \<or> merging (cs_pc s j))"
proof -
  have "mutex_inv s" using steps_invariant [where I = mutex_inv, OF assms(1) mutex_initial] mutex_step by blast
  then have "\<not> (holds_lock (cs_pc s i) \<and> holds_lock (cs_pc s j))"
    using assms(2) by (auto simp: mutex_inv_def)
  then show ?thesis using writes_table_iff by blast
qed

text \<open>Runs are built from single steps.\<close>

lemma step_then: "cstep S a b \<Longrightarrow> steps S b c \<Longrightarrow> steps S a c"
  by (rule converse_rtranclp_into_rtranclp)

lemma run_to_fetch:
  assumes "cs_pc s i = Idle" "cs_lock s = None"
  shows "steps S s (s\<lparr>cs_pc := (cs_pc s)(i := SyncFetch), cs_u := syncBegin (cs_u s)\<rparr>)"
proof -
  let ?a = "goes s i SyncLock" and ?b = "(goes (goes s i SyncLock) i SyncBody)\<lparr>cs_lock := Some i\<rparr>"
  have "cstep S s ?a" using assms by (intro cstep.start) auto
  moreover have "cstep S ?a ?b" using assms by (intro cstep.acquire) auto
  moreover have "cstep S ?b (unlocks ?b i (syncBegin (cs_u ?b), cs_w ?b) SyncFetch)"
    by (intro cstep.sync_begin) simp
  moreover have "unlocks ?b i (syncBegin (cs_u ?b), cs_w ?b) SyncFetch =
      s\<lparr>cs_pc := (cs_pc s)(i := SyncFetch), cs_u := syncBegin (cs_u s)\<rparr>"
    using assms by (simp add: goes_def unlocks_def)
  ultimately show ?thesis by (metis step_then rtranclp.rtrancl_refl)
qed

lemma run_fetch:
  assumes "cs_pc s i = SyncFetch" "fetchRoutes S (cs_w s) = (Some (Inr ms), w)"
  shows "steps S s (s\<lparr>cs_pc := (cs_pc s)(i := SyncMerge ms NewRoutingTable False), cs_w := w\<rparr>)"
  using cstep.sync_fetch [OF assms] by (simp add: goes_def r_into_rtranclp)

lemma run_to_lock:
  assumes "cs_pc s i = p" "locked_at p = Some pc" "cs_lock s = None"
  shows "steps S s (s\<lparr>cs_pc := (cs_pc s)(i := pc), cs_lock := Some i\<rparr>)"
  using cstep.acquire [of s i pc S] assms by (simp add: goes_def r_into_rtranclp)

lemma run_start:
  assumes "cs_pc s i = Idle" "entry_point pc"
  shows "steps S s (s\<lparr>cs_pc := (cs_pc s)(i := pc)\<rparr>)"
  using cstep.start [OF assms, of S] by (simp add: goes_def r_into_rtranclp)

text \<open>(C32) The exception is real: whenever the routing API delivers routes, a state can be reached
  in which one goroutine is merging them and another is in \<open>PruneStaleRoutes\<close>, both about to
  change the same table, which is a map of Go that must not be written concurrently.\<close>

theorem merge_races_with_prune:
  assumes "fetchRoutes S w = (Some (Inr ms), w1)"
  shows "\<exists>s. steps S (initial t ttl d w) s
    \<and> cs_pc s 0 = SyncMerge ms NewRoutingTable False \<and> cs_pc s 1 = PruneBody
    \<and> writes_table (cs_pc s 0) \<and> writes_table (cs_pc s 1)"
proof -
  let ?s0 = "initial t ttl d w"
  let ?s1 = "?s0\<lparr>cs_pc := (cs_pc ?s0)(0 := SyncFetch), cs_u := syncBegin (cs_u ?s0)\<rparr>"
  let ?s2 = "?s1\<lparr>cs_pc := (cs_pc ?s1)(0 := SyncMerge ms NewRoutingTable False), cs_w := w1\<rparr>"
  let ?s3 = "?s2\<lparr>cs_pc := (cs_pc ?s2)(1 := PruneLock)\<rparr>"
  let ?s4 = "?s3\<lparr>cs_pc := (cs_pc ?s3)(1 := PruneBody), cs_lock := Some 1\<rparr>"
  have a: "steps S ?s0 ?s1" by (rule run_to_fetch) (simp_all add: initial_def)
  have b: "steps S ?s1 ?s2" by (rule run_fetch) (simp_all add: initial_def assms)
  have c: "steps S ?s2 ?s3" by (rule run_start) (simp_all add: initial_def)
  have d: "steps S ?s3 ?s4" by (rule run_to_lock [OF refl]) (simp_all add: initial_def)
  have "steps S ?s0 ?s4"
    by (rule rtranclp_trans [OF a rtranclp_trans [OF b rtranclp_trans [OF c d]]])
  then show ?thesis by (intro exI [of _ ?s4]) simp
qed

theorem merge_races_with_prune_witness:
  "\<exists>s. steps (sample_services [sample_mapping 1024 ''10.0.0.1'' 1]) (initial NewRoutingTable 120 0 []) s
     \<and> writes_table (cs_pc s 0) \<and> writes_table (cs_pc s 1)"
proof -
  let ?ms = "[sample_mapping 1024 ''10.0.0.1'' 1]"
  have "fetchRoutes (sample_services ?ms) [] = (Some (Inr ?ms), [])"
    by (simp add: fetchRoutes_def sample_services_def numeral_2_eq_2)
  from merge_races_with_prune [OF this] show ?thesis by blast
qed

theorem writers_exclude_each_other_witness:
  "\<exists>s. steps (sample_services []) (initial NewRoutingTable 120 0 []) s
     \<and> cs_pc s 0 = PruneBody \<and> \<not> holds_lock (cs_pc s 1)"
proof -
  let ?s0 = "initial NewRoutingTable 120 0 [] :: (nat, sample_calls) sys"
  let ?s1 = "?s0\<lparr>cs_pc := (cs_pc ?s0)(0 := PruneLock)\<rparr>"
  let ?s2 = "?s1\<lparr>cs_pc := (cs_pc ?s1)(0 := PruneBody), cs_lock := Some 0\<rparr>"
  have a: "steps (sample_services []) ?s0 ?s1" by (rule run_start) (simp_all add: initial_def)
  have b: "steps (sample_services []) ?s1 ?s2" by (rule run_to_lock [OF refl]) (simp_all add: initial_def)
  note ab = rtranclp_trans [OF a b]
  show ?thesis
    using writers_exclude_each_other [OF ab, of 0 1] ab by (intro exI [of _ ?s2]) simp
qed

section \<open>Invariants of the operations\<close>

lemma configureIfChanged_u: "fst (snd (configureIfChanged S c st)) = fst st"
  by (simp add: configureIfChanged_def case_prod_beta Let_def)

lemma handleEvent_u:
  "fst (snd (handleEvent S e (u, w))) =
     (if known_action e then u\<lparr>up_routingTable := fst (event_table (sv_SucceededBy S) (sv_clock S (up_tick u)) e
        (up_routingTable u)), up_tick := Suc (up_tick u)\<rparr> else u)"
  by (simp add: handleEvent_known handleEvent_unknown configureIfChanged_u case_prod_beta Let_def)

lemma wf_handleEvent:
  "wf_table (up_routingTable (fst st)) \<Longrightarrow> wf_table (up_routingTable (fst (snd (handleEvent S e st))))"
  by (cases st) (simp add: handleEvent_u wf_intros)

lemma HandleEvent_u:
  "fst (snd (HandleEvent S e (u, w))) =
     (if up_syncing u then u\<lparr>up_cachedEvents := up_cachedEvents u @ [e]\<rparr> else fst (snd (handleEvent S e (u, w))))"
  by (simp add: HandleEvent_def case_prod_beta Let_def)

lemma wf_HandleEvent:
  "wf_table (up_routingTable u) \<Longrightarrow> wf_table (up_routingTable (fst (snd (HandleEvent S e (u, w)))))"
  using wf_handleEvent [of "(u, w)" S e] by (simp add: HandleEvent_u)

lemma cachedEventsLoop_invariant:
  assumes "I st" "\<And>st e. I st \<Longrightarrow> I (snd (handleEvent S e st))"
  shows "I (snd (cachedEventsLoop S es c st))"
  using assms(1)
proof (induction es arbitrary: c st)
  case (Cons e es)
  then show ?case using assms(2) [OF Cons.prems, of e] by (simp add: case_prod_beta)
qed simp

lemma wf_syncEnd:
  assumes "wf_table (up_routingTable u)" shows "wf_table (up_routingTable (fst (syncEnd S c (u, w))))"
proof -
  have "wf_table (up_routingTable (fst (snd (cachedEventsLoop S (up_cachedEvents u) False (u, w)))))"
    by (rule cachedEventsLoop_invariant [where I = "\<lambda>st. wf_table (up_routingTable (fst st))"])
      (simp_all add: assms wf_handleEvent)
  then show ?thesis by (simp add: syncEnd_def applyCachedEvents_def case_prod_beta Let_def)
qed

lemma wf_PruneStaleRoutes:
  "wf_table (up_routingTable u) \<Longrightarrow> mono (sv_clock S) \<Longrightarrow> wf_table (up_routingTable (PruneStaleRoutes S u))"
  using PruneEntries_spec [of "up_routingTable u" "sv_clock S" "up_defaultTTL u" "up_tick u"]
  by (simp add: PruneStaleRoutes_def case_prod_beta Let_def) (metis prod.collapse)

lemma wf_mergeOne:
  assumes "mergeOne S m fresh c u = (u', fresh', c')" "wf_table (up_routingTable u)" "wf_table fresh"
  shows "wf_table (up_routingTable u') \<and> wf_table fresh'"
  using assms by (auto simp: mergeOne_def mergeLoop_eq rt.ok_upsert_all)

definition tables_wf :: "('tag, 'w) sys \<Rightarrow> bool" where
  "tables_wf s \<longleftrightarrow> wf_table (up_routingTable (cs_u s))
     \<and> (\<forall>i ms fresh c. cs_pc s i = SyncMerge ms fresh c \<longrightarrow> wf_table fresh)"

lemma tables_wf_step: "cstep S s s' \<Longrightarrow> mono (sv_clock S) \<Longrightarrow> tables_wf s \<Longrightarrow> tables_wf s'"
proof (induction rule: cstep.induct)
  case (merge_one s i m ms fresh c u fresh' c')
  have "wf_table fresh" using merge_one by (metis tables_wf_def)
  then show ?case using merge_one wf_mergeOne by (fastforce simp: tables_wf_def)
next
  case (merge_end s i fresh c u c')
  have "wf_table fresh" using merge_end by (metis tables_wf_def)
  then have "wf_table ((up_routingTable (cs_u s))\<lparr>Entries := Entries fresh\<rparr>)" by (simp add: wf_table_def)
  then have "wf_table (up_routingTable u)"
    using merge_end by (auto simp: tables_wf_def mergeEnd_def split: if_splits)
  then show ?case using merge_end by (auto simp: tables_wf_def)
next
  case (start s i pc)
  then show ?case by (cases pc) (auto simp: tables_wf_def)
next
  case (acquire s i pc)
  then show ?case by (cases "cs_pc s i") (auto simp: tables_wf_def)
qed (auto simp: tables_wf_def wf_HandleEvent wf_syncEnd wf_PruneStaleRoutes syncBegin_def
      split: option.splits sum.splits)

text \<open>In every order in which the goroutines take their steps the routing table stays well formed: no
  route is ever left without a backend. The steps here are whole upserts and a whole prune; since
  the merge of a sync takes no lock, a Go program may interleave finer, and then nothing is promised:
  see the race above.\<close>

lemma table_wf_under_interleaving:
  assumes "steps S (initial t ttl d w) s" "mono (sv_clock S)" "wf_table t"
  shows "wf_table (up_routingTable (cs_u s))"
proof -
  have "tables_wf (initial t ttl d w)" using assms(3) by (simp add: tables_wf_def initial_def NewUpdater_def)
  then have "tables_wf s" using steps_invariant [where I = tables_wf, OF assms(1)] tables_wf_step assms(2) by blast
  then show ?thesis by (simp add: tables_wf_def)
qed

section \<open>Draining is final\<close>

text \<open>The services with a record of the calls to the configurer: whether each asked for failing
  health checks.\<close>

definition logged :: "('tag, 'w) services \<Rightarrow> ('tag, 'w \<times> bool list) services" where
  "logged S =
     \<lparr>sv_SucceededBy = sv_SucceededBy S, sv_clock = sv_clock S,
      sv_Configure = (\<lambda>t f (w, l). (fst (sv_Configure S t f w), snd (sv_Configure S t f w), l @ [f])),
      sv_FetchToken = (\<lambda>force (w, l). (fst (sv_FetchToken S force w), snd (sv_FetchToken S force w), l)),
      sv_SetToken = (\<lambda>token (w, l). (sv_SetToken S token w, l)),
      sv_TcpRouteMappings = (\<lambda>(w, l). (fst (sv_TcpRouteMappings S w), snd (sv_TcpRouteMappings S w), l))\<rparr>"

lemma logged_simps [simp]:
  "snd (snd (sv_Configure (logged S) t f w)) = snd w @ [f]"
  "snd (snd (sv_FetchToken (logged S) force w)) = snd w"
  "snd (sv_SetToken (logged S) token w) = snd w"
  "snd (snd (sv_TcpRouteMappings (logged S) w)) = snd w"
  by (simp_all add: logged_def case_prod_beta)

lemma fetchLoop_logged: "snd (snd (fetchLoop (logged S) n b r w)) = snd w"
proof (induction n arbitrary: b r w)
  case (Suc n)
  obtain x w1 where tok: "sv_FetchToken (logged S) (\<not> b) w = (x, w1)" by (meson surj_pair)
  have l1: "snd w1 = snd w" using logged_simps(2) [of S "\<not> b" w] tok by simp
  show ?case
  proof (cases x)
    case (Inr token)
    obtain y w2 where map: "sv_TcpRouteMappings (logged S) (sv_SetToken (logged S) token w1) = (y, w2)"
      by (meson surj_pair)
    have "snd w2 = snd w" using logged_simps(4) [of S "sv_SetToken (logged S) token w1"] map l1 by simp
    then show ?thesis using Inr tok map Suc.IH by (cases y) simp_all
  qed (simp add: tok l1)
qed simp

text \<open>An operation keeps the drain flag and passes it to every call it makes.\<close>

definition passes_flag :: "'tag updater \<times> 'w \<times> bool list \<Rightarrow> 'tag updater \<times> 'w \<times> bool list \<Rightarrow> bool" where
  "passes_flag st st' \<longleftrightarrow> up_isDraining (fst st') = up_isDraining (fst st)
     \<and> (\<exists>k. snd (snd st') = snd (snd st) @ replicate k (up_isDraining (fst st)))"

lemma passes_flag_trans: "passes_flag a b \<Longrightarrow> passes_flag b c \<Longrightarrow> passes_flag a c"
  by (auto simp: passes_flag_def replicate_add [symmetric])

lemma passes_flag_quiet:
  "up_isDraining (fst st') = up_isDraining (fst st) \<Longrightarrow> snd (snd st') = snd (snd st) \<Longrightarrow> passes_flag st st'"
  by (auto simp: passes_flag_def intro: exI [of _ 0])

lemma passes_flag_call:
  "up_isDraining u' = up_isDraining u \<Longrightarrow>
     passes_flag (u, w) (u', snd (sv_Configure (logged S) t (up_isDraining u) w))"
  by (auto simp: passes_flag_def intro: exI [of _ 1])

lemma handleEvent_passes_flag: "passes_flag st (snd (handleEvent (logged S) e st))"
proof -
  obtain u w where st: "st = (u, w)" by (meson surj_pair)
  show ?thesis
  proof (cases "known_action e")
    case True
    then show ?thesis
      by (auto simp: st handleEvent_known configureIfChanged_def case_prod_beta Let_def
          intro: passes_flag_quiet passes_flag_call)
  next
    case False
    then show ?thesis by (auto simp: handleEvent_unknown intro: passes_flag_quiet)
  qed
qed

lemma HandleEvent_passes_flag: "passes_flag st (snd (HandleEvent (logged S) e st))"
  using handleEvent_passes_flag [of st S e]
  by (auto simp: HandleEvent_def case_prod_beta Let_def intro: passes_flag_quiet)

lemma syncEnd_passes_flag: "passes_flag st (syncEnd (logged S) c st)"
proof -
  let ?r = "cachedEventsLoop (logged S) (up_cachedEvents (fst st)) False st"
  have r: "passes_flag st (snd ?r)"
    by (rule cachedEventsLoop_invariant) (auto intro: passes_flag_quiet passes_flag_trans handleEvent_passes_flag)
  obtain b u w where eq: "?r = (b, u, w)" by (metis prod_cases3)
  have "passes_flag (u, w) (syncEnd (logged S) c st)"
    by (auto simp: syncEnd_def applyCachedEvents_def eq Let_def intro: passes_flag_quiet passes_flag_call)
  then show ?thesis using r unfolding eq by (auto intro: passes_flag_trans)
qed

definition drain_history :: "'tag updater \<Rightarrow> bool list \<Rightarrow> bool" where
  "drain_history u l \<longleftrightarrow> (\<exists>a b. l = replicate a False @ replicate b True \<and> (0 < b \<longrightarrow> up_isDraining u))"

lemma history_call: "drain_history u l \<Longrightarrow> drain_history u (l @ replicate k (up_isDraining u))"
proof -
  assume "drain_history u l"
  then obtain a b where l: "l = replicate a False @ replicate b True" "0 < b \<longrightarrow> up_isDraining u"
    by (auto simp: drain_history_def)
  show ?thesis
  proof (cases "up_isDraining u")
    case True
    have "l @ replicate k True = replicate a False @ replicate (b + k) True" by (simp add: l replicate_add)
    then show ?thesis using True unfolding drain_history_def by metis
  next
    case False
    have "l @ replicate k False = replicate (a + k) False @ replicate 0 True" using l False by (simp add: replicate_add)
    then show ?thesis using False unfolding drain_history_def by (metis less_irrefl)
  qed
qed

lemma history_passes:
  assumes "passes_flag (u, w) st'" "drain_history u (snd w)"
  shows "drain_history (fst st') (snd (snd st'))"
proof -
  obtain k where "snd (snd st') = snd w @ replicate k (up_isDraining u)" "up_isDraining (fst st') = up_isDraining u"
    using assms(1) by (auto simp: passes_flag_def)
  then show ?thesis using history_call [OF assms(2), of k] by (simp add: drain_history_def)
qed

definition drain_inv :: "('tag, 'w \<times> bool list) sys \<Rightarrow> bool" where
  "drain_inv s \<longleftrightarrow> drain_history (cs_u s) (snd (cs_w s))
     \<and> (\<forall>i. cs_pc s i = DrainRead \<longrightarrow> up_isDraining (cs_u s))
     \<and> (\<forall>i f. cs_pc s i = DrainConfigure f \<longrightarrow> f \<and> up_isDraining (cs_u s))"

text \<open>A step that keeps the flag and does not take a goroutine to the configurer in \<open>Drain\<close>.\<close>

lemma drain_inv_passes:
  assumes "drain_inv s" "passes_flag (cs_u s, cs_w s) (cs_u s', cs_w s')"
    "cs_pc s' = (cs_pc s)(i := pc)" "pc \<noteq> DrainRead" "\<And>f. pc \<noteq> DrainConfigure f"
  shows "drain_inv s'"
proof -
  have "up_isDraining (cs_u s') = up_isDraining (cs_u s)" using assms(2) by (simp add: passes_flag_def)
  moreover have "drain_history (cs_u s') (snd (cs_w s'))"
    using history_passes [OF assms(2)] assms(1) by (simp add: drain_inv_def)
  ultimately show ?thesis using assms(1,3-5) unfolding drain_inv_def by (metis fun_upd_apply)
qed

lemma drain_inv_quiet:
  fixes s s' :: "('tag, 'w \<times> bool list) sys"
  assumes "drain_inv s" "up_isDraining (cs_u s') = up_isDraining (cs_u s)" "snd (cs_w s') = snd (cs_w s)"
    "cs_pc s' = (cs_pc s)(i := pc)" "pc \<noteq> DrainRead" "\<And>f. pc \<noteq> DrainConfigure f"
  shows "drain_inv s'"
  by (rule drain_inv_passes [OF assms(1), of s' i pc]) (simp_all add: passes_flag_quiet assms)

lemma op_flags [simp]:
  "up_isDraining (PruneStaleRoutes S u) = up_isDraining u"
  "up_isDraining (fst (mergeOne S m fresh c u)) = up_isDraining u"
  "up_isDraining (fst (mergeEnd fresh c u)) = up_isDraining u"
  by (simp_all add: PruneStaleRoutes_def mergeOne_def mergeEnd_def case_prod_beta Let_def)

lemma drain_inv_step: "cstep (logged S) s s' \<Longrightarrow> drain_inv s \<Longrightarrow> drain_inv s'"
proof (induction rule: cstep.induct)
  case (start s i pc)
  then show ?case by (intro drain_inv_quiet [OF start.prems, of _ i pc]) (cases pc, simp_all)+
next
  case (acquire s i pc)
  then show ?case by (intro drain_inv_quiet [OF acquire.prems, of _ i pc]) (cases "cs_pc s i", auto)+
next
  case (handle s i e)
  show ?case by (rule drain_inv_passes [OF handle.prems, of _ i Idle]) (simp_all add: HandleEvent_passes_flag)
next
  case (prune s i)
  show ?case by (rule drain_inv_quiet [OF prune.prems, of _ i Idle]) simp_all
next
  case (sync_begin s i)
  show ?case by (rule drain_inv_quiet [OF sync_begin.prems, of _ i SyncFetch]) simp_all
next
  case (sync_fetch s i r w)
  have "snd w = snd (cs_w s)" using fetchLoop_logged sync_fetch.hyps(2) unfolding fetchRoutes_def by (metis snd_conv)
  then show ?case
    by (intro drain_inv_quiet [OF sync_fetch.prems, of _ i]) (auto split: option.splits sum.splits)
next
  case (merge_one s i m ms fresh c u fresh' c')
  have "up_isDraining u = up_isDraining (cs_u s)" using op_flags(2) merge_one.hyps(2) by (metis fst_conv)
  then show ?case by (intro drain_inv_quiet [OF merge_one.prems, of _ i "SyncMerge ms fresh' c'"]) simp_all
next
  case (merge_end s i fresh c u c')
  have "up_isDraining u = up_isDraining (cs_u s)" using op_flags(3) merge_end.hyps(2) by (metis fst_conv)
  then show ?case by (intro drain_inv_quiet [OF merge_end.prems, of _ i "SyncEndLock c'"]) simp_all
next
  case (sync_end s i c)
  show ?case by (rule drain_inv_passes [OF sync_end.prems, of _ i Idle]) (simp_all add: syncEnd_passes_flag)
next
  case (drain_poll s i)
  show ?case by (rule drain_inv_quiet [OF drain_poll.prems, of _ i "if Syncing (cs_u s) then DrainPoll else DrainCheck"]) simp_all
next
  case (drain_check s i)
  show ?case by (rule drain_inv_quiet [OF drain_check.prems, of _ i "if IsDraining (cs_u s) then Idle else DrainSetLock"]) simp_all
next
  case (drain_set s i)
  then show ?case by (auto simp: drain_inv_def drain_history_def)
next
  case (drain_read s i)
  then show ?case by (auto simp: drain_inv_def IsDraining_def)
next
  case (drain_configure s i f err w)
  have f: "f" "up_isDraining (cs_u s)" using drain_configure by (auto simp: drain_inv_def)
  have "w = snd (sv_Configure (logged S) (up_routingTable (cs_u s)) (up_isDraining (cs_u s)) (cs_w s))"
    using drain_configure.hyps(2) f by simp
  then show ?case
    by (intro drain_inv_passes [OF drain_configure.prems, of _ i "if err \<noteq> None then Idle else DrainSleep"]) (simp_all add: passes_flag_call)
next
  case (drain_sleep s i)
  show ?case by (rule drain_inv_quiet [OF drain_sleep.prems, of _ i Idle]) simp_all
qed

text \<open>(C11) A drain is never undone: in every interleaving the calls to the configurer are first
  some that keep the health checks as they are and then only ones that make them fail, and of the
  latter there is none before the router drains.\<close>

theorem drain_is_final:
  assumes "steps (logged S) (initial t ttl d (w, [])) s"
  shows "\<exists>a b. snd (cs_w s) = replicate a False @ replicate b True \<and> (0 < b \<longrightarrow> up_isDraining (cs_u s))"
proof -
  have "drain_inv (initial t ttl d (w, []))"
    by (auto simp: drain_inv_def initial_def drain_history_def intro: exI [of _ 0])
  then have "drain_inv s" using steps_invariant [where I = drain_inv, OF assms] drain_inv_step by blast
  then show ?thesis by (simp add: drain_inv_def drain_history_def)
qed

theorem drain_is_final_witness:
  "\<exists>s. steps (logged (sample_services [])) (initial NewRoutingTable 120 0 ([], [])) s \<and> snd (cs_w s) = [True]
     \<and> up_isDraining (cs_u s)"
proof -
  let ?S = "logged (sample_services [])"
  let ?s0 = "initial NewRoutingTable 120 0 ([], []) :: (nat, sample_calls \<times> bool list) sys"
  let ?s3 = "goes (goes (goes ?s0 0 DrainPoll) 0 DrainCheck) 0 DrainSetLock"
  let ?s4 = "(goes ?s3 0 DrainSetBody)\<lparr>cs_lock := Some 0\<rparr>"
  let ?s5 = "unlocks ?s4 0 ((cs_u ?s4)\<lparr>up_isDraining := True\<rparr>, cs_w ?s4) DrainRead"
  let ?s6 = "goes ?s5 0 (DrainConfigure True)"
  obtain err w where c: "sv_Configure ?S (up_routingTable (cs_u ?s6)) True (cs_w ?s6) = (err, w)"
    by (meson surj_pair)
  let ?s7 = "(goes ?s6 0 (if err \<noteq> None then Idle else DrainSleep))\<lparr>cs_w := w\<rparr>"
  have "cstep ?S ?s0 (goes ?s0 0 DrainPoll)" by (rule cstep.start) (simp_all add: initial_def)
  moreover have "cstep ?S (goes ?s0 0 DrainPoll) (goes (goes ?s0 0 DrainPoll) 0 DrainCheck)"
    using cstep.drain_poll [of "goes ?s0 0 DrainPoll" 0 ?S] by (simp add: initial_def NewUpdater_def Syncing_def)
  moreover have "cstep ?S (goes (goes ?s0 0 DrainPoll) 0 DrainCheck) ?s3"
    using cstep.drain_check [of "goes (goes ?s0 0 DrainPoll) 0 DrainCheck" 0 ?S]
    by (simp add: initial_def NewUpdater_def IsDraining_def)
  moreover have "cstep ?S ?s3 ?s4" by (rule cstep.acquire) (simp_all add: initial_def)
  moreover have "cstep ?S ?s4 ?s5" by (rule cstep.drain_set) simp
  moreover have "cstep ?S ?s5 ?s6" using cstep.drain_read [of ?s5 0 ?S] by (simp add: IsDraining_def)
  moreover have "cstep ?S ?s6 ?s7" by (rule cstep.drain_configure [OF _ c]) simp
  ultimately have run: "steps ?S ?s0 ?s7" by (meson rtranclp.intros)
  have "snd w = [True]" using c by (auto simp: initial_def logged_def)
  then show ?thesis using drain_is_final [OF run] run by (intro exI [of _ ?s7]) (auto simp: append_eq_Cons_conv)
qed

section \<open>Overlapping syncs\<close>

text \<open>(C33) Syncs overlap, since each runs in its own goroutine, and then events are lost: an event
  that a first sync has cached is gone when a second one starts before the first ends. In the
  state shown the event was accepted, is neither in the table nor in the cache, and nothing will
  apply it; \<open>t\<close> is the table before.\<close>

theorem overlapping_sync_loses_event:
  "\<exists>s s1. steps S (initial t ttl d w) s \<and> up_cachedEvents (cs_u s) = [e] \<and> cs_pc s 0 = SyncFetch
     \<and> steps S s s1 \<and> up_cachedEvents (cs_u s1) = [] \<and> up_routingTable (cs_u s1) = t
     \<and> cs_pc s1 = (\<lambda>_. Idle)(0 := SyncFetch, 2 := SyncFetch)"
proof -
  let ?s0 = "initial t ttl d w"
  let ?s1 = "?s0\<lparr>cs_pc := (cs_pc ?s0)(0 := SyncFetch), cs_u := syncBegin (cs_u ?s0)\<rparr>"
  let ?s2 = "?s1\<lparr>cs_pc := (cs_pc ?s1)(1 := HandleLock e)\<rparr>"
  let ?s3 = "?s2\<lparr>cs_pc := (cs_pc ?s2)(1 := HandleBody e), cs_lock := Some 1\<rparr>"
  let ?s4 = "unlocks ?s3 1 (snd (HandleEvent S e (cs_u ?s3, cs_w ?s3))) Idle"
  let ?s5 = "?s4\<lparr>cs_pc := (cs_pc ?s4)(2 := SyncFetch), cs_u := syncBegin (cs_u ?s4)\<rparr>"
  have a: "steps S ?s0 ?s1" by (rule run_to_fetch) (simp_all add: initial_def)
  have b: "steps S ?s1 ?s2" by (rule run_start) (simp_all add: initial_def)
  have c: "steps S ?s2 ?s3" by (rule run_to_lock [OF refl]) (simp_all add: initial_def)
  have d: "steps S ?s3 ?s4" by (rule r_into_rtranclp, rule cstep.handle) simp
  have e: "steps S ?s4 ?s5" by (rule run_to_fetch) (simp_all add: initial_def)
  have u4: "cs_u ?s4 = (syncBegin (cs_u ?s0))\<lparr>up_cachedEvents := [e]\<rparr>"
    by (simp add: initial_def HandleEvent_u)
  have "steps S ?s0 ?s4"
    by (rule rtranclp_trans [OF a rtranclp_trans [OF b rtranclp_trans [OF c d]]])
  moreover have "up_cachedEvents (cs_u ?s4) = [e]" "cs_pc ?s4 0 = SyncFetch"
    using u4 by (simp_all add: initial_def)
  moreover have "up_cachedEvents (cs_u ?s5) = []" "up_routingTable (cs_u ?s5) = t"
    using u4 by (simp_all add: initial_def NewUpdater_def)
  moreover have "cs_pc ?s5 = (\<lambda>_. Idle)(0 := SyncFetch, 2 := SyncFetch)"
    by (auto simp: initial_def)
  ultimately show ?thesis using e by blast
qed

section \<open>The mutex is always released\<close>

text \<open>No goroutine waits for the mutex forever because of another: whoever holds it can take
  a step that releases it and touches no other goroutine.\<close>

lemma mutex_released:
  assumes "steps S (initial t ttl d w) s" "cs_lock s = Some i"
  shows "\<exists>s' pc. cstep S s s' \<and> cs_lock s' = None \<and> cs_pc s' = (cs_pc s)(i := pc)"
proof -
  have "mutex_inv s" using steps_invariant [where I = mutex_inv, OF assms(1) mutex_initial] mutex_step by blast
  then have "holds_lock (cs_pc s i)" using assms(2) by (simp add: mutex_inv_def)
  then consider e where "cs_pc s i = HandleBody e" | "cs_pc s i = PruneBody" | "cs_pc s i = SyncBody"
    | c where "cs_pc s i = SyncEndBody c" | "cs_pc s i = DrainSetBody"
    by (cases "cs_pc s i") auto
  then show ?thesis
    by cases (auto dest!: cstep.handle [of s i _ S] cstep.prune [of s i S] cstep.sync_begin [of s i S]
        cstep.sync_end [of s i _ S] cstep.drain_set [of s i S] intro!: exI)
qed

lemma mutex_released_witness:
  "\<exists>s s' :: (nat, sample_calls) sys. cs_lock s = Some 0 \<and> cstep (sample_services []) s s' \<and> cs_lock s' = None"
proof -
  let ?s0 = "initial NewRoutingTable 120 0 [] :: (nat, sample_calls) sys"
  let ?s1 = "?s0\<lparr>cs_pc := (cs_pc ?s0)(0 := PruneLock)\<rparr>"
  let ?s2 = "?s1\<lparr>cs_pc := (cs_pc ?s1)(0 := PruneBody), cs_lock := Some 0\<rparr>"
  have a: "steps (sample_services []) ?s0 ?s1" by (rule run_start) (simp_all add: initial_def)
  have b: "steps (sample_services []) ?s1 ?s2" by (rule run_to_lock [OF refl]) (simp_all add: initial_def)
  obtain s' where "cstep (sample_services []) ?s2 s'" "cs_lock s' = None"
    using mutex_released [OF rtranclp_trans [OF a b], of 0] by auto
  then show ?thesis by (intro exI [of _ ?s2] exI [of _ s']) simp
qed

end
