(* ===== verification/Updater_Refinement.thy ===== *)
theory Updater_Refinement
  imports Updater_Concurrency
begin

text \<open>
  How the two models of the updater fit together: a goroutine that runs without another getting in
  computes exactly the operation of \<open>Updater\<close>, and as long as syncs do not overlap the cache of
  events keeps every event and the end of the sync applies them all. The steps are those of
  \<open>Updater_Concurrency\<close>.
\<close>

section \<open>A goroutine by itself\<close>

text \<open>A step in which goroutine \<open>i\<close>, which is in the middle of an operation, moves to another point;
  no other goroutine does.\<close>

definition solo :: "('tag, 'w) services \<Rightarrow> nat \<Rightarrow> ('tag, 'w) sys \<Rightarrow> ('tag, 'w) sys \<Rightarrow> bool" where
  "solo S i s s' \<longleftrightarrow> cstep S s s' \<and> cs_pc s i \<noteq> Idle \<and> cs_pc s' i \<noteq> cs_pc s i"

abbreviation solos :: "('tag, 'w) services \<Rightarrow> nat \<Rightarrow> ('tag, 'w) sys \<Rightarrow> ('tag, 'w) sys \<Rightarrow> bool" where
  "solos S i \<equiv> (solo S i)\<^sup>*\<^sup>*"

text \<open>What goroutine \<open>i\<close> does next, as a function.\<close>

definition advance :: "('tag, 'w) services \<Rightarrow> nat \<Rightarrow> ('tag, 'w) sys \<Rightarrow> ('tag, 'w) sys" where
  "advance S i s =
     (case cs_pc s i of
        HandleBody e \<Rightarrow> unlocks s i (snd (HandleEvent S e (cs_u s, cs_w s))) Idle
      | PruneBody \<Rightarrow> unlocks s i (PruneStaleRoutes S (cs_u s), cs_w s) Idle
      | SyncBody \<Rightarrow> unlocks s i (syncBegin (cs_u s), cs_w s) SyncFetch
      | SyncFetch \<Rightarrow> (case fetchRoutes S (cs_w s) of (r, w) \<Rightarrow>
          (goes s i (case r of Some (Inr ms) \<Rightarrow> SyncMerge ms NewRoutingTable False | _ \<Rightarrow> SyncEndLock False))\<lparr>cs_w := w\<rparr>)
      | SyncMerge (m # ms) fresh c \<Rightarrow> (case mergeOne S m fresh c (cs_u s) of (u, fresh', c') \<Rightarrow>
          (goes s i (SyncMerge ms fresh' c'))\<lparr>cs_u := u\<rparr>)
      | SyncMerge [] fresh c \<Rightarrow> (case mergeEnd fresh c (cs_u s) of (u, c') \<Rightarrow> (goes s i (SyncEndLock c'))\<lparr>cs_u := u\<rparr>)
      | SyncEndBody c \<Rightarrow> unlocks s i (syncEnd S c (cs_u s, cs_w s)) Idle
      | DrainPoll \<Rightarrow> goes s i (if Syncing (cs_u s) then DrainPoll else DrainCheck)
      | DrainCheck \<Rightarrow> goes s i (if IsDraining (cs_u s) then Idle else DrainSetLock)
      | DrainSetBody \<Rightarrow> unlocks s i ((cs_u s)\<lparr>up_isDraining := True\<rparr>, cs_w s) DrainRead
      | DrainRead \<Rightarrow> goes s i (DrainConfigure (IsDraining (cs_u s)))
      | DrainConfigure f \<Rightarrow> (case sv_Configure S (up_routingTable (cs_u s)) f (cs_w s) of (err, w) \<Rightarrow>
          (goes s i (if err \<noteq> None then Idle else DrainSleep))\<lparr>cs_w := w\<rparr>)
      | DrainSleep \<Rightarrow> goes s i Idle
      | p \<Rightarrow> (case locked_at p of Some q \<Rightarrow> (goes s i q)\<lparr>cs_lock := Some i\<rparr> | None \<Rightarrow> s))"

lemma solo_advance: "solo S i s s' \<Longrightarrow> s' = advance S i s"
  unfolding solo_def
proof (elim conjE, induction rule: cstep.induct)
  case (acquire s j pc)
  then have "j = i" by (auto split: if_splits)
  with acquire show ?case by (cases "cs_pc s i") (auto simp: advance_def)
qed (auto simp: advance_def split: if_splits)

lemma advance_cstep:
  assumes "cs_pc s i \<noteq> Idle" "cs_lock s = None \<or> cs_pc s i \<in> {SyncBody, SyncFetch} \<union> range HandleBody"
  shows "cstep S s (advance S i s)"
proof (cases "locked_at (cs_pc s i)")
  case (Some q)
  then show ?thesis
    using assms(2) cstep.acquire [OF Some, of S] by (cases "cs_pc s i") (auto simp: advance_def)
next
  case None
  then show ?thesis
    using assms
    by (cases "cs_pc s i")
      (auto simp: advance_def simp del: not_None_eq intro: cstep.intros split: list.splits prod.splits split del: if_split)
qed

lemma solo_deterministic: "solo S i s a \<Longrightarrow> solo S i s b \<Longrightarrow> a = b"
  using solo_advance by metis

lemma solo_stops: "cs_pc s i = Idle \<Longrightarrow> \<not> solo S i s s'"
  by (simp add: solo_def)

text \<open>Since it has no choice, a goroutine that can reach a point where it stops does so however far
  it has come.\<close>

lemma solos_confluent:
  assumes "solos S i a c" and "\<nexists>y. solo S i c y" and "solos S i a x"
  shows "solos S i x c"
  using assms(3)
proof (induction rule: rtranclp_induct)
  case (step x y)
  from \<open>solos S i x c\<close> show ?case
  proof (cases rule: converse_rtranclpE)
    case base
    then show ?thesis using step(2) assms(2) by blast
  next
    case (step z)
    then show ?thesis using solo_deterministic \<open>solo S i x y\<close> by metis
  qed
qed (rule assms(1))

lemma soloI:
  "cstep S s s' \<Longrightarrow> cs_pc s i \<noteq> Idle \<Longrightarrow> cs_pc s' = (cs_pc s)(i := p) \<Longrightarrow> p \<noteq> cs_pc s i \<Longrightarrow> solo S i s s'"
  by (simp add: solo_def)

lemma solos_eq: "solos S i a b \<Longrightarrow> b = c \<Longrightarrow> solos S i a c"
  by simp

section \<open>The operations that let others in\<close>

text \<open>The state in which an operation has left the updater and the world, and the mutex is free.\<close>

definition set_to :: "('tag, 'w) sys \<Rightarrow> 'tag updater \<times> 'w \<Rightarrow> ('tag, 'w) sys" where
  "set_to s st = s\<lparr>cs_u := fst st, cs_w := snd st\<rparr>"

text \<open>Idle, the mutex free.\<close>

definition rests :: "('tag, 'w) sys \<Rightarrow> nat \<Rightarrow> bool" where
  "rests s i \<longleftrightarrow> cs_pc s i = Idle \<and> cs_lock s = None"

lemma set_to_idle: "rests s i \<Longrightarrow> (s\<lparr>cs_pc := (cs_pc s)(i := Idle), cs_u := u, cs_w := w\<rparr>) = set_to s (u, w)"
  by (simp add: set_to_def rests_def fun_upd_idem)

text \<open>Goroutine \<open>i\<close>, started at \<open>p\<close> and left alone: wherever it has got to, it goes on to the state \<open>st\<close>
  describes, and there it is done.\<close>

definition computes ::
  "('tag, 'w) services \<Rightarrow> nat \<Rightarrow> ('tag, 'w) sys \<Rightarrow> 'tag pc \<Rightarrow> 'tag updater \<times> 'w \<Rightarrow> bool" where
  "computes S i s p st \<longleftrightarrow>
     (\<forall>x. solos S i (goes s i p) x \<longrightarrow> solos S i x (set_to s st)) \<and> cs_pc (set_to s st) i = Idle"

lemma computesI: "rests s i \<Longrightarrow> solos S i (goes s i p) (set_to s st) \<Longrightarrow> computes S i s p st"
  using solos_confluent [of S i "goes s i p" "set_to s st"] solo_stops [of "set_to s st" i S]
  by (auto simp: computes_def set_to_def rests_def)

text \<open>A section under the mutex.\<close>

lemma run_body:
  assumes "cs_pc s i = p" "locked_at p = Some q" "cs_lock s = None" "r \<noteq> q"
    and "\<And>s. cs_pc s i = q \<Longrightarrow> cstep S s (unlocks s i (f (cs_u s, cs_w s)) r)"
  shows "solos S i s (s\<lparr>cs_pc := (cs_pc s)(i := r), cs_u := fst (f (cs_u s, cs_w s)), cs_w := snd (f (cs_u s, cs_w s))\<rparr>)"
proof -
  let ?s = "(goes s i q)\<lparr>cs_lock := Some i\<rparr>"
  have q: "p \<noteq> Idle" "q \<noteq> Idle" "q \<noteq> p" using assms(2) by (cases p; auto)+
  have "solo S i s ?s"
    using q assms(1,2,3) by (intro soloI [OF cstep.acquire, where p = q]) auto
  moreover have "solo S i ?s (unlocks ?s i (f (cs_u ?s, cs_w ?s)) r)"
    using q assms(4) by (intro soloI [OF assms(5), where p = r]) auto
  moreover have "unlocks ?s i (f (cs_u ?s, cs_w ?s)) r =
      s\<lparr>cs_pc := (cs_pc s)(i := r), cs_u := fst (f (cs_u s, cs_w s)), cs_w := snd (f (cs_u s, cs_w s))\<rparr>"
    using assms(3) by (simp add: unlocks_def goes_def)
  ultimately show ?thesis by (auto intro: converse_rtranclp_into_rtranclp r_into_rtranclp)
qed

lemma mergeOne_mergeLoop:
  "mergeOne S m fresh c u = (u', fresh', c') \<Longrightarrow>
     mergeLoop S (m # ms) (up_tick u) (up_routingTable u) fresh c =
     mergeLoop S ms (up_tick u') (up_routingTable u') fresh' c'"
  by (auto simp: mergeOne_def Let_def split: prod.splits)

lemma mergeOne_frame: "mergeOne S m fresh c u = (u', fresh', c') \<Longrightarrow>
  u' = u\<lparr>up_routingTable := up_routingTable u', up_tick := up_tick u'\<rparr>"
  by (auto simp: mergeOne_def split: prod.splits)

lemma run_merge:
  assumes "cs_pc s i = SyncMerge ms fresh c"
    and "mergeLoop S ms (up_tick (cs_u s)) (up_routingTable (cs_u s)) fresh c = (t, fresh', c', n)"
    and "mergeEnd fresh' c' ((cs_u s)\<lparr>up_routingTable := t, up_tick := n\<rparr>) = (u, changed)"
  shows "solos S i s (s\<lparr>cs_pc := (cs_pc s)(i := SyncEndLock changed), cs_u := u\<rparr>)"
  using assms
proof (induction ms arbitrary: s fresh c)
  case Nil
  then have "mergeEnd fresh c (cs_u s) = (u, changed)" by auto
  then have "solo S i s ((goes s i (SyncEndLock changed))\<lparr>cs_u := u\<rparr>)"
    using Nil.prems(1) by (intro soloI [OF cstep.merge_end [OF Nil.prems(1)], where p = "SyncEndLock changed"]) simp_all
  then show ?case unfolding goes_def by (rule r_into_rtranclp)
next
  case (Cons m ms)
  obtain u1 f1 c1 where one: "mergeOne S m fresh c (cs_u s) = (u1, f1, c1)" by (metis prod_cases3)
  let ?s = "(goes s i (SyncMerge ms f1 c1))\<lparr>cs_u := u1\<rparr>"
  have step: "solo S i s ?s"
    using Cons.prems(1) by (intro soloI [OF cstep.merge_one [OF Cons.prems(1) one], where p = "SyncMerge ms f1 c1"]) simp_all
  have "u1\<lparr>up_routingTable := t, up_tick := n\<rparr> = (cs_u s)\<lparr>up_routingTable := t, up_tick := n\<rparr>"
    by (subst mergeOne_frame [OF one]) simp
  then have "solos S i ?s (?s\<lparr>cs_pc := (cs_pc ?s)(i := SyncEndLock changed), cs_u := u\<rparr>)"
    using Cons.prems mergeOne_mergeLoop [OF one, of ms] by (intro Cons.IH) simp_all
  with step have "solos S i s (?s\<lparr>cs_pc := (cs_pc ?s)(i := SyncEndLock changed), cs_u := u\<rparr>)"
    by (rule converse_rtranclp_into_rtranclp)
  then show ?case by (rule solos_eq) (rule sys.equality, auto)
qed

lemma mergeRoutes_mergeEnd:
  assumes "mergeLoop S ms (up_tick u) (up_routingTable u) NewRoutingTable False = (t, fresh, c, n)"
  shows "mergeEnd fresh c (u\<lparr>up_routingTable := t, up_tick := n\<rparr>) = (snd (mergeRoutes S ms u), fst (mergeRoutes S ms u))"
  using assms by (simp add: mergeRoutes_def mergeEnd_def)

text \<open>From the fetch to the end of the merge.\<close>

lemma run_fetch_merge:
  assumes "cs_pc s i = SyncFetch" "fetchRoutes S (cs_w s) = (r, w)" "syncFetched S r (cs_u s) = (changed, u)"
  shows "solos S i s (s\<lparr>cs_pc := (cs_pc s)(i := SyncEndLock changed), cs_u := u, cs_w := w\<rparr>)"
proof (cases "\<exists>ms. r = Some (Inr ms)")
  case True
  then obtain ms where r: "r = Some (Inr ms)" by blast
  let ?s = "s\<lparr>cs_pc := (cs_pc s)(i := SyncMerge ms NewRoutingTable False), cs_w := w\<rparr>"
  obtain t fresh c n where loop: "mergeLoop S ms (up_tick (cs_u s)) (up_routingTable (cs_u s)) NewRoutingTable False = (t, fresh, c, n)"
    by (metis prod_cases4)
  have "mergeEnd fresh c ((cs_u s)\<lparr>up_routingTable := t, up_tick := n\<rparr>) = (u, changed)"
    using mergeRoutes_mergeEnd [OF loop] assms(3) by (simp add: r syncFetched_def)
  then have "solos S i ?s (?s\<lparr>cs_pc := (cs_pc ?s)(i := SyncEndLock changed), cs_u := u\<rparr>)"
    using loop by (intro run_merge) simp_all
  moreover have "solo S i s ?s"
    using assms(1) soloI [OF cstep.sync_fetch [OF assms(1,2)], of i "SyncMerge ms NewRoutingTable False"]
    by (simp add: r goes_def)
  ultimately have "solos S i s (?s\<lparr>cs_pc := (cs_pc ?s)(i := SyncEndLock changed), cs_u := u\<rparr>)"
    by (rule converse_rtranclp_into_rtranclp [rotated])
  then show ?thesis by (rule solos_eq) (rule sys.equality, simp_all)
next
  case False
  then have p: "(case r of Some (Inr ms) \<Rightarrow> SyncMerge ms NewRoutingTable False | _ \<Rightarrow> SyncEndLock False) = SyncEndLock changed"
      "u = cs_u s"
    using assms(3) by (auto simp: syncFetched_def split: option.splits sum.splits)
  have "solo S i s ((goes s i (SyncEndLock changed))\<lparr>cs_w := w\<rparr>)"
    using assms(1) cstep.sync_fetch [OF assms(1,2)] by (intro soloI [where p = "SyncEndLock changed"]) (simp_all add: p)
  moreover have "(goes s i (SyncEndLock changed))\<lparr>cs_w := w\<rparr> =
      s\<lparr>cs_pc := (cs_pc s)(i := SyncEndLock changed), cs_u := u, cs_w := w\<rparr>"
    by (intro sys.equality) (simp_all add: p)
  ultimately show ?thesis by (metis r_into_rtranclp)
qed

lemma run_sync:
  assumes "rests s i"
  shows "solos S i (goes s i SyncLock) (set_to s (Sync S (cs_u s, cs_w s)))"
proof -
  obtain r w1 where fetched: "fetchRoutes S (cs_w s) = (r, w1)" by force
  let ?u1 = "syncBegin (cs_u s)" and ?s0 = "goes s i SyncLock"
  obtain changed u2 where u2: "syncFetched S r ?u1 = (changed, u2)" by force
  let ?s1 = "s\<lparr>cs_pc := (cs_pc s)(i := SyncFetch), cs_u := ?u1\<rparr>"
  let ?s3 = "s\<lparr>cs_pc := (cs_pc s)(i := SyncEndLock changed), cs_u := u2, cs_w := w1\<rparr>"
  have "solos S i ?s0 (?s0\<lparr>cs_pc := (cs_pc ?s0)(i := SyncFetch), cs_u := fst (?u1, cs_w s), cs_w := snd (?u1, cs_w s)\<rparr>)"
    using run_body [of ?s0 i SyncLock SyncBody SyncFetch S "\<lambda>(u, w). (syncBegin u, w)"] assms
    by (simp add: rests_def cstep.sync_begin)
  then have a: "solos S i ?s0 ?s1" by (rule solos_eq) (rule sys.equality, simp_all)
  have "solos S i ?s1 (?s1\<lparr>cs_pc := (cs_pc ?s1)(i := SyncEndLock changed), cs_u := u2, cs_w := w1\<rparr>)"
    by (rule run_fetch_merge [where r = r]) (simp_all add: fetched u2)
  then have b: "solos S i ?s1 ?s3" by simp
  have "solos S i ?s3 (?s3\<lparr>cs_pc := (cs_pc ?s3)(i := Idle), cs_u := fst (syncEnd S changed (cs_u ?s3, cs_w ?s3)),
      cs_w := snd (syncEnd S changed (cs_u ?s3, cs_w ?s3))\<rparr>)"
    by (rule run_body [of _ _ "SyncEndLock changed" "SyncEndBody changed"])
       (use assms in \<open>simp_all add: rests_def cstep.sync_end\<close>)
  moreover have "Sync S (cs_u s, cs_w s) = syncEnd S changed (u2, w1)" by (simp add: Sync_def fetched u2)
  ultimately have "solos S i ?s3 (set_to s (Sync S (cs_u s, cs_w s)))"
    using assms by (simp add: set_to_def rests_def fun_upd_idem)
  with b have "solos S i ?s1 (set_to s (Sync S (cs_u s, cs_w s)))" by (rule rtranclp_trans)
  with a show ?thesis by (rule rtranclp_trans)
qed

lemma drainWait_idle: "\<not> up_syncing u \<Longrightarrow> drainWait others (u, w) = Some (u, w)"
  by (subst drainWait.simps) (simp add: Syncing_def)

lemma run_drain_check:
  assumes "rests s i" "\<not> up_syncing (cs_u s)"
  shows "solos S i (goes s i DrainPoll)
    (s\<lparr>cs_pc := (cs_pc s)(i := if IsDraining (cs_u s) then Idle else DrainSetLock)\<rparr>)"
proof -
  let ?s = "goes s i DrainPoll" and ?s2 = "s\<lparr>cs_pc := (cs_pc s)(i := DrainCheck)\<rparr>"
  have "cstep S ?s (goes ?s i (if Syncing (cs_u ?s) then DrainPoll else DrainCheck))"
    using assms(1) by (intro cstep.drain_poll) (simp_all add: rests_def)
  then have "solo S i ?s ?s2"
    using assms(2) by (intro soloI [where p = DrainCheck]) (simp_all add: goes_def Syncing_def)
  moreover have "cstep S ?s2 (goes ?s2 i (if IsDraining (cs_u ?s2) then Idle else DrainSetLock))"
    using assms(1) by (intro cstep.drain_check) (simp_all add: rests_def)
  then have "solo S i ?s2 (s\<lparr>cs_pc := (cs_pc s)(i := if IsDraining (cs_u s) then Idle else DrainSetLock)\<rparr>)"
    by (intro soloI [where p = "if IsDraining (cs_u s) then Idle else DrainSetLock"]) (simp_all add: goes_def)
  ultimately show ?thesis by (rule converse_rtranclp_into_rtranclp [OF _ r_into_rtranclp])
qed

text \<open>From the call of the configurer to the end of a drain.\<close>

lemma run_drain_configure:
  assumes "cs_pc s i = DrainConfigure True" "sv_Configure S (up_routingTable (cs_u s)) True (cs_w s) = (e, w)"
  shows "solos S i s ((goes s i Idle)\<lparr>cs_w := w\<rparr>)"
proof -
  let ?p = "if e \<noteq> None then Idle else DrainSleep"
  have f: "solo S i s ((goes s i ?p)\<lparr>cs_w := w\<rparr>)"
    using assms by (intro soloI [OF cstep.drain_configure, where p = ?p]) simp_all
  show ?thesis
  proof (cases e)
    case None
    let ?s = "(goes s i DrainSleep)\<lparr>cs_w := w\<rparr>"
    have "solo S i ?s (goes ?s i Idle)" by (intro soloI [OF cstep.drain_sleep, where p = Idle]) simp_all
    moreover have "goes ?s i Idle = (goes s i Idle)\<lparr>cs_w := w\<rparr>" by (rule sys.equality) simp_all
    moreover have "solo S i s ?s" using f None by simp
    ultimately show ?thesis by (auto intro: converse_rtranclp_into_rtranclp)
  qed (use f in auto)
qed

lemma run_drain:
  assumes "rests s i" "\<not> up_syncing (cs_u s)" "Drain S others (\<lambda>_ st. st) (cs_u s, cs_w s) = Some (err, st)"
  shows "solos S i (goes s i DrainPoll) (set_to s st)"
proof (cases "IsDraining (cs_u s)")
  case True
  then have "st = (cs_u s, cs_w s)" using assms(3) by (simp add: Drain_def drainWait_idle [OF assms(2)])
  then show ?thesis
    using run_drain_check [OF assms(1,2), of S] True assms(1)
    by (simp add: set_to_def rests_def fun_upd_idem)
next
  case False
  let ?u1 = "(cs_u s)\<lparr>up_isDraining := True\<rparr>"
  let ?s3 = "s\<lparr>cs_pc := (cs_pc s)(i := DrainSetLock)\<rparr>"
  let ?s4 = "s\<lparr>cs_pc := (cs_pc s)(i := DrainRead), cs_u := ?u1\<rparr>"
  let ?s5 = "goes ?s4 i (DrainConfigure True)"
  obtain e w1 where conf: "sv_Configure S (up_routingTable (cs_u s)) True (cs_w s) = (e, w1)" by (meson surj_pair)
  have st: "st = (?u1, w1)"
    using assms(3) False conf
    by (auto simp: Drain_def drainWait_idle [OF assms(2)] IsDraining_def Let_def split: option.splits)
  have c: "solos S i (goes s i DrainPoll) ?s3" using run_drain_check [OF assms(1,2), of S] False by simp
  have d: "solos S i ?s3 ?s4"
    using run_body [of ?s3 i DrainSetLock DrainSetBody DrainRead S "\<lambda>(u, w). (u\<lparr>up_isDraining := True\<rparr>, w)"] assms(1)
    by (simp add: rests_def cstep.drain_set)
  have "cstep S ?s4 (goes ?s4 i (DrainConfigure (IsDraining (cs_u ?s4))))"
    using assms(1) by (intro cstep.drain_read) (simp_all add: rests_def)
  then have e: "solo S i ?s4 ?s5" by (intro soloI [where p = "DrainConfigure True"]) (simp_all add: IsDraining_def)
  have "solos S i ?s5 ((goes ?s5 i Idle)\<lparr>cs_w := w1\<rparr>)" by (rule run_drain_configure) (use conf in simp_all)
  then have "solos S i ?s5 (set_to s st)"
    by (rule solos_eq) (use assms(1) st in \<open>intro sys.equality, simp_all add: set_to_def rests_def fun_upd_idem\<close>)
  with e have "solos S i ?s4 (set_to s st)" by (rule converse_rtranclp_into_rtranclp)
  with d have "solos S i ?s3 (set_to s st)" by (rule rtranclp_trans)
  with c show ?thesis by (rule rtranclp_trans)
qed

lemma drain_stuck: "up_syncing (cs_u s) \<Longrightarrow> \<not> solo S i (goes s i DrainPoll) x"
proof
  assume u: "up_syncing (cs_u s)" and "solo S i (goes s i DrainPoll) x"
  then have "x = goes (goes s i DrainPoll) i DrainPoll" "cs_pc x i \<noteq> DrainPoll"
    using solo_advance [of S i "goes s i DrainPoll" x] by (simp_all add: solo_def advance_def Syncing_def)
  then show False by simp
qed

text \<open>(C14) The two operations that release the mutex on the way are, when no other goroutine moves,
  exactly the operations as a whole: a sync started with the mutex free, however far it has got, goes
  on to the updater and the world that \<open>Sync\<close> computes and stops there; so does a drain while no
  sync is running, with what \<open>Drain\<close> computes; and a drain started while the flag of a sync is set
  never moves on, as \<open>Drain\<close> never returns then.\<close>

theorem operation_is_solo_run:
  assumes "rests s i"
  shows "computes S i s SyncLock (Sync S (cs_u s, cs_w s))
    \<and> (if up_syncing (cs_u s)
       then (\<nexists>x. solo S i (goes s i DrainPoll) x) \<and> Drain S id (\<lambda>_ st. st) (cs_u s, cs_w s) = None
       else \<exists>err st. Drain S id (\<lambda>_ st. st) (cs_u s, cs_w s) = Some (err, st) \<and> computes S i s DrainPoll st)"
proof -
  have sync: "computes S i s SyncLock (Sync S (cs_u s, cs_w s))"
    using assms run_sync [OF assms] by (rule computesI)
  show ?thesis
  proof (cases "up_syncing (cs_u s)")
    case True
    then have "drainWait id (cs_u s, cs_w s) = None" by (simp add: drainWait_None_iff)
    with True sync show ?thesis by (simp add: drain_stuck Drain_def)
  next
    case False
    then have "Drain S id (\<lambda>_ st. st) (cs_u s, cs_w s) \<noteq> None"
      by (auto simp: Drain_def drainWait_idle Let_def split: prod.splits option.splits)
    then obtain err st where "Drain S id (\<lambda>_ st. st) (cs_u s, cs_w s) = Some (err, st)" by fast
    then show ?thesis using sync False computesI [OF assms run_drain [OF assms False]] by auto
  qed
qed

theorem operation_is_solo_run_witness:
  "let s = initial NewRoutingTable 120 0 [] :: (nat, sample_calls) sys;
       S = sample_services [sample_mapping 1024 ''10.0.0.1'' 2]
   in computes S 0 s SyncLock (Sync S (cs_u s, cs_w s)) \<and> snd (Sync S (cs_u s, cs_w s)) \<noteq> []"
proof -
  let ?s = "initial NewRoutingTable 120 0 [] :: (nat, sample_calls) sys"
  let ?ms = "[sample_mapping 1024 ''10.0.0.1'' 2]"
  let ?S = "sample_services ?ms"
  have "rests ?s 0" by (simp add: rests_def initial_def)
  from operation_is_solo_run [OF this, of ?S] have c: "computes ?S 0 ?s SyncLock (Sync ?S (cs_u ?s, cs_w ?s))" ..
  have u: "cs_u ?s = NewUpdater NewRoutingTable 120 0" "cs_w ?s = []" by (simp_all add: initial_def)
  obtain u' w' where r: "Sync ?S (cs_u ?s, cs_w ?s) = (u', w')" by force
  have "fetchRoutes ?S (cs_w ?s) = (Some (Inr ?ms), [])"
    by (simp add: fetchRoutes_def sample_services_def numeral_2_eq_2 u)
  from Sync_spec [OF _ this r] have "w' \<noteq> []" by (simp add: u NewUpdater_def sample_services_def)
  then show ?thesis using c r by (simp add: Let_def)
qed

section \<open>Syncs that do not overlap\<close>

text \<open>The points of a sync: all of them, and those between its begin and its end.\<close>

fun sync_pc :: "'tag pc \<Rightarrow> bool" where
  "sync_pc SyncLock = True"
| "sync_pc SyncBody = True"
| "sync_pc SyncFetch = True"
| "sync_pc (SyncMerge ms fresh c) = True"
| "sync_pc (SyncEndLock c) = True"
| "sync_pc (SyncEndBody c) = True"
| "sync_pc _ = False"

fun in_sync :: "'tag pc \<Rightarrow> bool" where
  "in_sync SyncFetch = True"
| "in_sync (SyncMerge ms fresh c) = True"
| "in_sync (SyncEndLock c) = True"
| "in_sync (SyncEndBody c) = True"
| "in_sync _ = False"

definition one_sync :: "('tag, 'w) sys \<Rightarrow> bool" where
  "one_sync s \<longleftrightarrow> (\<forall>i j. sync_pc (cs_pc s i) \<and> sync_pc (cs_pc s j) \<longrightarrow> i = j)"

text \<open>Executions in which a sync starts only when no other is under way, with their history: the
  events handled since the last begin or end of a sync. The history is not part of the program; it
  is written from the points the goroutines pass.\<close>

fun noted :: "'tag pc \<Rightarrow> 'tag TcpEvent list \<Rightarrow> 'tag TcpEvent list" where
  "noted (HandleBody e) h = h @ [e]"
| "noted SyncBody h = []"
| "noted (SyncEndBody c) h = []"
| "noted _ h = h"

definition hstep ::
  "('tag, 'w) services \<Rightarrow> ('tag, 'w) sys \<times> 'tag TcpEvent list \<Rightarrow> ('tag, 'w) sys \<times> 'tag TcpEvent list \<Rightarrow> bool" where
  "hstep S x y \<longleftrightarrow> cstep S (fst x) (fst y) \<and> one_sync (fst y)
     \<and> (cs_pc (fst y) = cs_pc (fst x) \<and> snd y = snd x
        \<or> (\<exists>i. cs_pc (fst y) i \<noteq> cs_pc (fst x) i \<and> snd y = noted (cs_pc (fst x) i) (snd x)))"

text \<open>The flag is set exactly between the begin and the end of the sync; then the cache holds the
  events of the history, otherwise it is empty.\<close>

definition cache_inv :: "('tag, 'w) sys \<Rightarrow> 'tag TcpEvent list \<Rightarrow> bool" where
  "cache_inv s h \<longleftrightarrow> (up_syncing (cs_u s) \<longleftrightarrow> (\<exists>i. in_sync (cs_pc s i)))
     \<and> up_cachedEvents (cs_u s) = (if up_syncing (cs_u s) then h else [])"

lemma in_sync_pc: "in_sync p \<Longrightarrow> sync_pc p"
  by (cases p) simp_all

lemma sync_frames:
  "up_syncing (fst (snd (HandleEvent S e (u, w)))) = up_syncing u"
  "up_cachedEvents (fst (snd (HandleEvent S e (u, w)))) = (if up_syncing u then up_cachedEvents u @ [e] else up_cachedEvents u)"
  "up_syncing (PruneStaleRoutes S u) = up_syncing u" "up_cachedEvents (PruneStaleRoutes S u) = up_cachedEvents u"
  "mergeOne S m fresh c u = (u', fresh', c') \<Longrightarrow> up_syncing u' = up_syncing u \<and> up_cachedEvents u' = up_cachedEvents u"
  "mergeEnd fresh c u = (u', c') \<Longrightarrow> up_syncing u' = up_syncing u \<and> up_cachedEvents u' = up_cachedEvents u"
  "\<not> up_syncing (fst (syncEnd S c st))" "up_cachedEvents (fst (syncEnd S c st)) = []"
  by (auto simp: HandleEvent_u handleEvent_u PruneStaleRoutes_def mergeOne_def mergeEnd_def syncEnd_def
      case_prod_beta Let_def split: if_splits)

text \<open>A step that keeps the flag and does not enter or leave the sync.\<close>

lemma cache_inv_quiet:
  assumes "cache_inv s h" "cs_pc s' = (cs_pc s)(i := p)" "in_sync p \<longleftrightarrow> in_sync (cs_pc s i)"
    and "up_syncing (cs_u s') = up_syncing (cs_u s)"
    and "up_cachedEvents (cs_u s) = (if up_syncing (cs_u s) then h else []) \<Longrightarrow>
      up_cachedEvents (cs_u s') = (if up_syncing (cs_u s) then h' else [])"
  shows "cache_inv s' h'"
proof -
  have "(\<exists>j. in_sync (cs_pc s' j)) \<longleftrightarrow> (\<exists>j. in_sync (cs_pc s j))"
    using assms(2,3) by (metis fun_upd_apply)
  then show ?thesis using assms by (simp add: cache_inv_def)
qed

lemma cache_inv_step:
  assumes "cstep S s s'" "one_sync s" "cache_inv s h"
    and "\<And>i p. cs_pc s' = (cs_pc s)(i := p) \<Longrightarrow> p \<noteq> cs_pc s i \<or> noted (cs_pc s i) h = h \<Longrightarrow> h' = noted (cs_pc s i) h"
  shows "cache_inv s' h'"
  using assms
proof (induction rule: cstep.induct)
  case (start s i pc)
  have "h' = h" using start.prems(3) [of i pc] by (simp add: start.hyps)
  then show ?case
    using start.hyps by (intro cache_inv_quiet [OF start.prems(2), of _ i pc]) (cases pc, simp_all)+
next
  case (acquire s i pc)
  have "h' = h" using acquire.prems(3) [of i pc] acquire.hyps(1) by (cases "cs_pc s i") auto
  then show ?case
    using acquire.hyps(1) by (intro cache_inv_quiet [OF acquire.prems(2), of _ i pc]) (cases "cs_pc s i", auto)+
next
  case (handle s i e)
  have "h' = h @ [e]" using handle.prems(3) [of i Idle] by (simp add: handle.hyps)
  then show ?case
    by (intro cache_inv_quiet [OF handle.prems(2), of _ i Idle]) (simp_all add: handle.hyps sync_frames)
next
  case (prune s i)
  have "h' = h" using prune.prems(3) [of i Idle] by (simp add: prune.hyps)
  then show ?case
    by (intro cache_inv_quiet [OF prune.prems(2), of _ i Idle]) (simp_all add: prune.hyps sync_frames)
next
  case (sync_begin s i)
  have "h' = []" using sync_begin.prems(3) [of i SyncFetch] by (simp add: sync_begin.hyps)
  then show ?case by (auto simp: cache_inv_def)
next
  case (sync_fetch s i r w)
  let ?p = "case r of Some (Inr ms) \<Rightarrow> SyncMerge ms NewRoutingTable False | _ \<Rightarrow> SyncEndLock False"
  have "h' = h" using sync_fetch.prems(3) [of i ?p] by (simp add: sync_fetch.hyps)
  then show ?case
    by (intro cache_inv_quiet [OF sync_fetch.prems(2), of _ i ?p])
       (auto simp: sync_fetch.hyps split: option.splits sum.splits)
next
  case (merge_one s i m ms fresh c u fresh' c')
  have "h' = h" using merge_one.prems(3) [of i "SyncMerge ms fresh' c'"] by (simp add: merge_one.hyps)
  then show ?case
    by (intro cache_inv_quiet [OF merge_one.prems(2), of _ i "SyncMerge ms fresh' c'"])
       (use sync_frames(5) [OF merge_one.hyps(2)] in \<open>simp_all add: merge_one.hyps\<close>)
next
  case (merge_end s i fresh c u c')
  have "h' = h" using merge_end.prems(3) [of i "SyncEndLock c'"] by (simp add: merge_end.hyps)
  then show ?case
    by (intro cache_inv_quiet [OF merge_end.prems(2), of _ i "SyncEndLock c'"])
       (use sync_frames(6) [OF merge_end.hyps(2)] in \<open>simp_all add: merge_end.hyps\<close>)
next
  case (sync_end s i c)
  have "\<not> in_sync (cs_pc s j)" if "j \<noteq> i" for j
    using sync_end.prems(1) sync_end.hyps that in_sync_pc unfolding one_sync_def by (metis sync_pc.simps(6))
  then show ?case by (simp add: cache_inv_def sync_frames)
next
  case (drain_poll s i)
  let ?p = "if Syncing (cs_u s) then DrainPoll else DrainCheck"
  have "h' = h" using drain_poll.prems(3) [of i ?p] by (simp add: drain_poll.hyps)
  then show ?case by (intro cache_inv_quiet [OF drain_poll.prems(2), of _ i ?p]) (simp_all add: drain_poll.hyps)
next
  case (drain_check s i)
  let ?p = "if IsDraining (cs_u s) then Idle else DrainSetLock"
  have "h' = h" using drain_check.prems(3) [of i ?p] by (simp add: drain_check.hyps)
  then show ?case by (intro cache_inv_quiet [OF drain_check.prems(2), of _ i ?p]) (simp_all add: drain_check.hyps)
next
  case (drain_set s i)
  have "h' = h" using drain_set.prems(3) [of i DrainRead] by (simp add: drain_set.hyps)
  then show ?case by (intro cache_inv_quiet [OF drain_set.prems(2), of _ i DrainRead]) (simp_all add: drain_set.hyps)
next
  case (drain_read s i)
  let ?p = "DrainConfigure (IsDraining (cs_u s))"
  have "h' = h" using drain_read.prems(3) [of i ?p] by (simp add: drain_read.hyps)
  then show ?case by (intro cache_inv_quiet [OF drain_read.prems(2), of _ i ?p]) (simp_all add: drain_read.hyps)
next
  case (drain_configure s i f err w)
  let ?p = "if err \<noteq> None then Idle else DrainSleep"
  have "h' = h" using drain_configure.prems(3) [of i ?p] by (simp add: drain_configure.hyps)
  then show ?case by (intro cache_inv_quiet [OF drain_configure.prems(2), of _ i ?p]) (simp_all add: drain_configure.hyps)
next
  case (drain_sleep s i)
  have "h' = h" using drain_sleep.prems(3) [of i Idle] by (simp add: drain_sleep.hyps)
  then show ?case by (intro cache_inv_quiet [OF drain_sleep.prems(2), of _ i Idle]) (simp_all add: drain_sleep.hyps)
qed

lemma one_sync_initial: "one_sync (initial t ttl d w)" "cache_inv (initial t ttl d w) []"
  by (simp_all add: one_sync_def cache_inv_def initial_def NewUpdater_def)

text \<open>The history belongs to the one goroutine that moved.\<close>

lemma hstep_history:
  assumes "hstep S (s, h) (s', h')" "cs_pc s' = (cs_pc s)(i := p)" "p \<noteq> cs_pc s i \<or> noted (cs_pc s i) h = h"
  shows "h' = noted (cs_pc s i) h"
proof (cases "p = cs_pc s i")
  case True
  then show ?thesis using assms by (auto simp: hstep_def)
next
  case False
  then have moved: "cs_pc s' j \<noteq> cs_pc s j \<longleftrightarrow> j = i" for j using assms(2) by auto
  then have "cs_pc s' \<noteq> cs_pc s" by metis
  then show ?thesis using assms(1) moved by (auto simp: hstep_def)
qed

lemma hsteps_inv:
  assumes "(hstep S)\<^sup>*\<^sup>* (initial t ttl d w, []) x"
  shows "one_sync (fst x) \<and> cache_inv (fst x) (snd x)"
  using assms
proof (induction rule: rtranclp_induct)
  case (step x y)
  obtain s h s' h' where xy: "x = (s, h)" "y = (s', h')" by fastforce
  have "cstep S s s'" "one_sync s'" using step.hyps(2) by (simp_all add: hstep_def xy)
  then show ?case
    using step.IH cache_inv_step [of S s s' h h'] hstep_history [OF step.hyps(2) [unfolded xy]] by (simp add: xy)
qed (simp add: one_sync_initial)

text \<open>(C13) As long as no sync starts while another is under way, no event is lost. In every
  execution, with \<open>h\<close> the events handled since the last begin or end of a sync: while the sync runs
  the cache is exactly \<open>h\<close>, in order, and outside it is empty; the step that ends the sync applies
  all of \<open>h\<close>, in order, to the table the merge has left; and an event handled outside a sync is
  applied to the table at once, one handled during it is left to the end.\<close>

theorem single_sync_loses_nothing:
  assumes "(hstep S)\<^sup>*\<^sup>* (initial t ttl d w, []) (s, h)"
  shows "(up_syncing (cs_u s) \<longleftrightarrow> (\<exists>i. in_sync (cs_pc s i)))
    \<and> up_cachedEvents (cs_u s) = (if up_syncing (cs_u s) then h else [])
    \<and> (\<forall>i c. cs_pc s i = SyncEndBody c \<longrightarrow>
         up_routingTable (fst (syncEnd S c (cs_u s, cs_w s))) =
           fst (events_table (sv_SucceededBy S) (sv_clock S) (up_tick (cs_u s)) h (up_routingTable (cs_u s))))
    \<and> (\<forall>i e. cs_pc s i = HandleBody e \<longrightarrow>
         up_routingTable (fst (snd (HandleEvent S e (cs_u s, cs_w s)))) =
           (if up_syncing (cs_u s) then up_routingTable (cs_u s)
            else fst (event_table (sv_SucceededBy S) (sv_clock S (up_tick (cs_u s))) e (up_routingTable (cs_u s)))))"
proof -
  have inv: "cache_inv s h" using hsteps_inv [OF assms] by simp
  have "up_routingTable (fst (syncEnd S c (cs_u s, cs_w s))) =
      fst (events_table (sv_SucceededBy S) (sv_clock S) (up_tick (cs_u s)) h (up_routingTable (cs_u s)))"
    if "cs_pc s i = SyncEndBody c" for i c
  proof -
    have "in_sync (cs_pc s i)" using that by simp
    then have "up_syncing (cs_u s)" "up_cachedEvents (cs_u s) = h" using inv by (auto simp: cache_inv_def)
    then show ?thesis by (simp add: syncEnd_eq case_prod_beta Let_def)
  qed
  then show ?thesis using inv by (auto simp: cache_inv_def HandleEvent_u handleEvent_u Let_def)
qed

lemma hstep_to:
  assumes "cs_pc s i \<noteq> Idle" "cs_lock s = None \<or> cs_pc s i \<in> {SyncBody, SyncFetch} \<union> range HandleBody"
    and "advance S i s = s'" "cs_pc s' i \<noteq> cs_pc s i" "one_sync s'"
  shows "hstep S (s, h) (s', noted (cs_pc s i) h)"
  using advance_cstep [OF assms(1,2), of S] assms(3-5) by (auto simp: hstep_def)

lemma hstep_start:
  "cs_pc s i = Idle \<Longrightarrow> entry_point p \<Longrightarrow> one_sync (goes s i p) \<Longrightarrow> hstep S (s, h) (goes s i p, h)"
  using cstep.start [of s i p S] by (auto simp: hstep_def)

lemma hstep_trans: "hstep S a b \<Longrightarrow> (hstep S)\<^sup>*\<^sup>* b c \<Longrightarrow> (hstep S)\<^sup>*\<^sup>* a c"
  by (rule converse_rtranclp_into_rtranclp)

text \<open>An event that arrives between the begin and the end of a sync that fetches nothing.\<close>

definition sample_event :: "nat TcpEvent" where
  "sample_event = \<lparr>ev_TcpRouteMapping = sample_mapping 9 ''10.9.9.9'' 2, ev_Action = ''Upsert''\<rparr>"

definition two_goroutines ::
  "nat pc \<Rightarrow> nat pc \<Rightarrow> nat option \<Rightarrow> nat updater \<Rightarrow> (nat, sample_calls) sys" where
  "two_goroutines p q lock u = \<lparr>cs_u = u, cs_w = [], cs_lock = lock, cs_pc = (\<lambda>_. Idle)(0 := p, Suc 0 := q)\<rparr>"

lemma two_goroutines_simps [simp]:
  "cs_pc (two_goroutines p q lock u) 0 = p" "cs_pc (two_goroutines p q lock u) (Suc 0) = q"
  "cs_lock (two_goroutines p q lock u) = lock" "cs_u (two_goroutines p q lock u) = u"
  "cs_w (two_goroutines p q lock u) = []"
  "goes (two_goroutines p q lock u) 0 p' = two_goroutines p' q lock u"
  "goes (two_goroutines p q lock u) (Suc 0) q' = two_goroutines p q' lock u"
  "two_goroutines p q lock u\<lparr>cs_lock := lock'\<rparr> = two_goroutines p q lock' u"
  "two_goroutines p q lock u\<lparr>cs_u := u'\<rparr> = two_goroutines p q lock u'"
  "two_goroutines p q lock u\<lparr>cs_w := []\<rparr> = two_goroutines p q lock u"
  by (simp_all add: two_goroutines_def goes_def fun_upd_twist)

lemma one_sync_two [simp]: "\<not> sync_pc q \<Longrightarrow> one_sync (two_goroutines p q lock u)"
  by (auto simp: one_sync_def two_goroutines_def split: if_splits)

lemma sample_run:
  obtains s :: "(nat, sample_calls) sys"
  where "(hstep (sample_services []))\<^sup>*\<^sup>* (initial NewRoutingTable 120 0 [], []) (s, [sample_event])"
    "cs_pc s 0 = SyncEndBody False" "up_routingTable (cs_u s) = NewRoutingTable"
proof -
  let ?S = "sample_services []" and ?e = sample_event and ?st = two_goroutines
  let ?u0 = "NewUpdater NewRoutingTable 120 0 :: nat updater"
  let ?u1 = "syncBegin ?u0"
  let ?u2 = "?u1\<lparr>up_cachedEvents := [?e]\<rparr>"
  have s0: "initial NewRoutingTable 120 0 [] = ?st Idle Idle None ?u0"
    by (simp add: two_goroutines_def initial_def fun_eq_iff)
  have fetch: "fetchRoutes ?S [] = (Some (Inr []), [])"
    by (simp add: fetchRoutes_def sample_services_def numeral_2_eq_2)
  have start0: "hstep ?S (?st Idle Idle None ?u0, []) (?st SyncLock Idle None ?u0, [])"
    using hstep_start [of "?st Idle Idle None ?u0" 0 SyncLock ?S "[]"] by simp
  have lock0: "hstep ?S (?st SyncLock Idle None ?u0, []) (?st SyncBody Idle (Some 0) ?u0, [])"
    using hstep_to [of "?st SyncLock Idle None ?u0" 0 ?S _ "[]", OF _ _ refl] by (simp add: advance_def)
  have begin0: "hstep ?S (?st SyncBody Idle (Some 0) ?u0, []) (?st SyncFetch Idle None ?u1, [])"
    using hstep_to [of "?st SyncBody Idle (Some 0) ?u0" 0 ?S _ "[]", OF _ _ refl] by (simp add: advance_def unlocks_def)
  have start1: "hstep ?S (?st SyncFetch Idle None ?u1, []) (?st SyncFetch (HandleLock ?e) None ?u1, [])"
    using hstep_start [of "?st SyncFetch Idle None ?u1" "Suc 0" "HandleLock ?e" ?S "[]"] by simp
  have lock1: "hstep ?S (?st SyncFetch (HandleLock ?e) None ?u1, []) (?st SyncFetch (HandleBody ?e) (Some (Suc 0)) ?u1, [])"
    using hstep_to [of "?st SyncFetch (HandleLock ?e) None ?u1" "Suc 0" ?S _ "[]", OF _ _ refl] by (simp add: advance_def)
  have event1: "hstep ?S (?st SyncFetch (HandleBody ?e) (Some (Suc 0)) ?u1, []) (?st SyncFetch Idle None ?u2, [?e])"
    using hstep_to [of "?st SyncFetch (HandleBody ?e) (Some (Suc 0)) ?u1" "Suc 0" ?S _ "[]", OF _ _ refl]
    by (simp add: advance_def unlocks_def HandleEvent_def NewUpdater_def)
  have fetch0: "hstep ?S (?st SyncFetch Idle None ?u2, [?e]) (?st (SyncMerge [] NewRoutingTable False) Idle None ?u2, [?e])"
    using hstep_to [of "?st SyncFetch Idle None ?u2" 0 ?S _ "[?e]", OF _ _ refl] by (simp add: advance_def fetch)
  have merge0: "hstep ?S (?st (SyncMerge [] NewRoutingTable False) Idle None ?u2, [?e]) (?st (SyncEndLock False) Idle None ?u2, [?e])"
    using hstep_to [of "?st (SyncMerge [] NewRoutingTable False) Idle None ?u2" 0 ?S _ "[?e]", OF _ _ refl]
    by (simp add: advance_def mergeEnd_def NewUpdater_def)
  have end0: "hstep ?S (?st (SyncEndLock False) Idle None ?u2, [?e]) (?st (SyncEndBody False) Idle (Some 0) ?u2, [?e])"
    using hstep_to [of "?st (SyncEndLock False) Idle None ?u2" 0 ?S _ "[?e]", OF _ _ refl] by (simp add: advance_def)
  let ?s = "?st (SyncEndBody False) Idle (Some 0) ?u2"
  have run: "(hstep ?S)\<^sup>*\<^sup>* (initial NewRoutingTable 120 0 [], []) (?s, [?e])"
    unfolding s0
    by (rule hstep_trans [OF start0] hstep_trans [OF lock0] hstep_trans [OF begin0] hstep_trans [OF start1]
        hstep_trans [OF lock1] hstep_trans [OF event1] hstep_trans [OF fetch0] hstep_trans [OF merge0]
        hstep_trans [OF end0] rtranclp.rtrancl_refl)+
  show thesis by (rule that [OF run]) (simp_all add: NewUpdater_def)
qed

theorem single_sync_loses_nothing_witness:
  "\<exists>s. (hstep (sample_services []))\<^sup>*\<^sup>* (initial NewRoutingTable 120 0 [], []) (s :: (nat, sample_calls) sys, [sample_event])
     \<and> cs_pc s 0 = SyncEndBody False
     \<and> table_pairs (up_routingTable (fst (syncEnd (sample_services []) False (cs_u s, cs_w s)))) =
         {mapping_pair (sample_mapping 9 ''10.9.9.9'' 2)}"
proof -
  let ?S = "sample_services []"
  obtain s :: "(nat, sample_calls) sys"
    where run: "(hstep ?S)\<^sup>*\<^sup>* (initial NewRoutingTable 120 0 [], []) (s, [sample_event])"
      and s: "cs_pc s 0 = SyncEndBody False" "up_routingTable (cs_u s) = NewRoutingTable" by (rule sample_run)
  have "up_routingTable (fst (syncEnd ?S False (cs_u s, cs_w s))) =
      fst (events_table (sv_SucceededBy ?S) (sv_clock ?S) (up_tick (cs_u s)) [sample_event] (up_routingTable (cs_u s)))"
    using single_sync_loses_nothing [OF run] s(1) by blast
  then have "table_pairs (up_routingTable (fst (syncEnd ?S False (cs_u s, cs_w s)))) =
      {mapping_pair (sample_mapping 9 ''10.9.9.9'' 2)}"
    by (simp add: s(2) sample_event_def event_table_def case_prod_beta upsert_pairs mapping_pair_def)
  then show ?thesis using run s(1) by blast
qed

end
