(* ===== verification/Counterfeiter.thy ===== *)
theory Counterfeiter
  imports Updater Metrics Config_Marshaller
begin

text \<open>
  The fakes the tests use in place of the components (\<open>fakes/*.go\<close>, written by counterfeiter):
  objects that record the calls they get and answer what the test has told them to.

  Each method of an interface is a group of fields of the fake, here a record: the stub, the
  arguments of the calls so far, the default result and the results for particular calls. Every
  operation holds the mutex of its method, so it is one step; the last section looks at the mutexes
  themselves. Arguments are kept as the method gets them: a map or a pointer is kept as a reference,
  which matters for the routing table alone, as the configuration passed to the marshaller is built
  for the call and not changed after it. A stub is a function on the state \<open>'w\<close> of the test. An index out of range, which
  panics, gives \<open>None\<close>.
\<close>

section \<open>A method of a fake\<close>

record ('a, 'r, 'w) fake_method =
  fm_stub :: "('a \<Rightarrow> 'w \<Rightarrow> 'r \<times> 'w) option"
  fm_argsForCall :: "'a list"
  fm_returns :: 'r
  fm_returnsOnCall :: "(int, 'r) gomap"

text \<open>A method without results.\<close>

record ('a, 'w) fake_proc =
  fp_stub :: "('a \<Rightarrow> 'w \<Rightarrow> 'w) option"
  fp_argsForCall :: "'a list"

type_synonym 'v invocations = "(string, 'v list list) gomap"

definition recordInvocation :: "string \<Rightarrow> 'v list \<Rightarrow> 'v invocations \<Rightarrow> 'v invocations" where
  "recordInvocation key args invs =
     (let invs1 = (if gm_get invs key = None then gm_put key [] invs else invs)
      in gm_put key (the (gm_get invs1 key) @ [args]) invs1)"

text \<open>The loop of \<open>Invocations\<close> that copies the map.\<close>

fun copyInvocations :: "'v invocations \<Rightarrow> 'v invocations \<Rightarrow> 'v invocations" where
  "copyInvocations [] copied = copied"
| "copyInvocations ((key, value) # rest) copied = copyInvocations rest (gm_put key value copied)"

definition fm_record :: "'a \<Rightarrow> ('a, 'r, 'w) fake_method \<Rightarrow> ('a, 'r, 'w) fake_method" where
  "fm_record a m = m\<lparr>fm_argsForCall := fm_argsForCall m @ [a]\<rparr>"

text \<open>What a call answers, from the fields before it.\<close>

definition fm_answer :: "'a \<Rightarrow> ('a, 'r, 'w) fake_method \<Rightarrow> 'w \<Rightarrow> 'r \<times> 'w" where
  "fm_answer a m w =
     (case fm_stub m of
        Some stub \<Rightarrow> stub a w
      | None \<Rightarrow>
          (case gm_get (fm_returnsOnCall m) (int (length (fm_argsForCall m))) of
             Some ret \<Rightarrow> (ret, w)
           | None \<Rightarrow> (fm_returns m, w)))"

definition fm_setStub :: "('a \<Rightarrow> 'w \<Rightarrow> 'r \<times> 'w) option \<Rightarrow> ('a, 'r, 'w) fake_method \<Rightarrow> ('a, 'r, 'w) fake_method" where
  "fm_setStub stub m = m\<lparr>fm_stub := stub\<rparr>"

definition fm_setReturns :: "'r \<Rightarrow> ('a, 'r, 'w) fake_method \<Rightarrow> ('a, 'r, 'w) fake_method" where
  "fm_setReturns r m = m\<lparr>fm_stub := None, fm_returns := r\<rparr>"

definition fm_setReturnsOnCall :: "int \<Rightarrow> 'r \<Rightarrow> ('a, 'r, 'w) fake_method \<Rightarrow> ('a, 'r, 'w) fake_method" where
  "fm_setReturnsOnCall i r m = m\<lparr>fm_stub := None, fm_returnsOnCall := gm_put i r (fm_returnsOnCall m)\<rparr>"

definition fp_record :: "'a \<Rightarrow> ('a, 'w) fake_proc \<Rightarrow> ('a, 'w) fake_proc" where
  "fp_record a m = m\<lparr>fp_argsForCall := fp_argsForCall m @ [a]\<rparr>"

definition fp_answer :: "'a \<Rightarrow> ('a, 'w) fake_proc \<Rightarrow> 'w \<Rightarrow> 'w" where
  "fp_answer a m w = (case fp_stub m of Some stub \<Rightarrow> stub a w | None \<Rightarrow> w)"

definition goIndex :: "'a list \<Rightarrow> int \<Rightarrow> 'a option" where
  "goIndex xs i = (if 0 \<le> i \<and> i < int (length xs) then Some (xs ! nat i) else None)"

text \<open>A fake as \<open>new(Fake\<dots>)\<close> makes it.\<close>

definition fm_new :: "'r \<Rightarrow> ('a, 'r, 'w) fake_method" where
  "fm_new zero = \<lparr>fm_stub = None, fm_argsForCall = [], fm_returns = zero, fm_returnsOnCall = gm_empty\<rparr>"

definition fp_new :: "('a, 'w) fake_proc" where
  "fp_new = \<lparr>fp_stub = None, fp_argsForCall = []\<rparr>"

section \<open>FakeUpdater\<close>

record ('tag, 'w) FakeUpdater =
  fu_drain :: "(unit, go_error option, 'w) fake_method"
  fu_handleEvent :: "('tag TcpEvent, go_error option, 'w) fake_method"
  fu_pruneStaleRoutes :: "(unit, 'w) fake_proc"
  fu_sync :: "(unit, 'w) fake_proc"
  fu_syncing :: "(unit, bool, 'w) fake_method"
  fu_invocations :: "'tag TcpEvent invocations"

definition FakeUpdater_recordInvocation :: "string \<Rightarrow> 'tag TcpEvent list \<Rightarrow> ('tag, 'w) FakeUpdater \<Rightarrow> ('tag, 'w) FakeUpdater" where
  "FakeUpdater_recordInvocation key args fake = fake\<lparr>fu_invocations := recordInvocation key args (fu_invocations fake)\<rparr>"

definition FakeUpdater_Invocations :: "('tag, 'w) FakeUpdater \<Rightarrow> 'tag TcpEvent invocations" where
  "FakeUpdater_Invocations fake = copyInvocations (fu_invocations fake) gm_empty"

definition FakeUpdater_Drain :: "('tag, 'w) FakeUpdater \<Rightarrow> 'w \<Rightarrow> go_error option \<times> ('tag, 'w) FakeUpdater \<times> 'w" where
  "FakeUpdater_Drain fake w =
     (let fake' = FakeUpdater_recordInvocation ''Drain'' [] (fake\<lparr>fu_drain := fm_record () (fu_drain fake)\<rparr>);
          (result1, w') = fm_answer () (fu_drain fake) w
      in (result1, fake', w'))"

definition FakeUpdater_DrainCallCount :: "('tag, 'w) FakeUpdater \<Rightarrow> int" where
  "FakeUpdater_DrainCallCount fake = int (length (fm_argsForCall (fu_drain fake)))"

definition FakeUpdater_DrainCalls :: "(unit \<Rightarrow> 'w \<Rightarrow> go_error option \<times> 'w) option \<Rightarrow> ('tag, 'w) FakeUpdater \<Rightarrow> ('tag, 'w) FakeUpdater" where
  "FakeUpdater_DrainCalls stub fake = fake\<lparr>fu_drain := fm_setStub stub (fu_drain fake)\<rparr>"

definition FakeUpdater_DrainReturns :: "go_error option \<Rightarrow> ('tag, 'w) FakeUpdater \<Rightarrow> ('tag, 'w) FakeUpdater" where
  "FakeUpdater_DrainReturns result1 fake = fake\<lparr>fu_drain := fm_setReturns result1 (fu_drain fake)\<rparr>"

definition FakeUpdater_DrainReturnsOnCall :: "int \<Rightarrow> go_error option \<Rightarrow> ('tag, 'w) FakeUpdater \<Rightarrow> ('tag, 'w) FakeUpdater" where
  "FakeUpdater_DrainReturnsOnCall i result1 fake = fake\<lparr>fu_drain := fm_setReturnsOnCall i result1 (fu_drain fake)\<rparr>"

definition FakeUpdater_HandleEvent :: "'tag TcpEvent \<Rightarrow> ('tag, 'w) FakeUpdater \<Rightarrow> 'w \<Rightarrow> go_error option \<times> ('tag, 'w) FakeUpdater \<times> 'w" where
  "FakeUpdater_HandleEvent arg1 fake w =
     (let fake' = FakeUpdater_recordInvocation ''HandleEvent'' [arg1] (fake\<lparr>fu_handleEvent := fm_record arg1 (fu_handleEvent fake)\<rparr>);
          (result1, w') = fm_answer arg1 (fu_handleEvent fake) w
      in (result1, fake', w'))"

definition FakeUpdater_HandleEventCallCount :: "('tag, 'w) FakeUpdater \<Rightarrow> int" where
  "FakeUpdater_HandleEventCallCount fake = int (length (fm_argsForCall (fu_handleEvent fake)))"

definition FakeUpdater_HandleEventCalls :: "('tag TcpEvent \<Rightarrow> 'w \<Rightarrow> go_error option \<times> 'w) option \<Rightarrow> ('tag, 'w) FakeUpdater \<Rightarrow> ('tag, 'w) FakeUpdater" where
  "FakeUpdater_HandleEventCalls stub fake = fake\<lparr>fu_handleEvent := fm_setStub stub (fu_handleEvent fake)\<rparr>"

definition FakeUpdater_HandleEventArgsForCall :: "int \<Rightarrow> ('tag, 'w) FakeUpdater \<Rightarrow> ('tag TcpEvent) option" where
  "FakeUpdater_HandleEventArgsForCall i fake = goIndex (fm_argsForCall (fu_handleEvent fake)) i"

definition FakeUpdater_HandleEventReturns :: "go_error option \<Rightarrow> ('tag, 'w) FakeUpdater \<Rightarrow> ('tag, 'w) FakeUpdater" where
  "FakeUpdater_HandleEventReturns result1 fake = fake\<lparr>fu_handleEvent := fm_setReturns result1 (fu_handleEvent fake)\<rparr>"

definition FakeUpdater_HandleEventReturnsOnCall :: "int \<Rightarrow> go_error option \<Rightarrow> ('tag, 'w) FakeUpdater \<Rightarrow> ('tag, 'w) FakeUpdater" where
  "FakeUpdater_HandleEventReturnsOnCall i result1 fake = fake\<lparr>fu_handleEvent := fm_setReturnsOnCall i result1 (fu_handleEvent fake)\<rparr>"

definition FakeUpdater_PruneStaleRoutes :: "('tag, 'w) FakeUpdater \<Rightarrow> 'w \<Rightarrow> ('tag, 'w) FakeUpdater \<times> 'w" where
  "FakeUpdater_PruneStaleRoutes fake w =
     (let fake' = FakeUpdater_recordInvocation ''PruneStaleRoutes'' [] (fake\<lparr>fu_pruneStaleRoutes := fp_record () (fu_pruneStaleRoutes fake)\<rparr>)
      in (fake', fp_answer () (fu_pruneStaleRoutes fake) w))"

definition FakeUpdater_PruneStaleRoutesCallCount :: "('tag, 'w) FakeUpdater \<Rightarrow> int" where
  "FakeUpdater_PruneStaleRoutesCallCount fake = int (length (fp_argsForCall (fu_pruneStaleRoutes fake)))"

definition FakeUpdater_PruneStaleRoutesCalls :: "(unit \<Rightarrow> 'w \<Rightarrow> 'w) option \<Rightarrow> ('tag, 'w) FakeUpdater \<Rightarrow> ('tag, 'w) FakeUpdater" where
  "FakeUpdater_PruneStaleRoutesCalls stub fake = fake\<lparr>fu_pruneStaleRoutes := (fu_pruneStaleRoutes fake)\<lparr>fp_stub := stub\<rparr>\<rparr>"

definition FakeUpdater_Sync :: "('tag, 'w) FakeUpdater \<Rightarrow> 'w \<Rightarrow> ('tag, 'w) FakeUpdater \<times> 'w" where
  "FakeUpdater_Sync fake w =
     (let fake' = FakeUpdater_recordInvocation ''Sync'' [] (fake\<lparr>fu_sync := fp_record () (fu_sync fake)\<rparr>)
      in (fake', fp_answer () (fu_sync fake) w))"

definition FakeUpdater_SyncCallCount :: "('tag, 'w) FakeUpdater \<Rightarrow> int" where
  "FakeUpdater_SyncCallCount fake = int (length (fp_argsForCall (fu_sync fake)))"

definition FakeUpdater_SyncCalls :: "(unit \<Rightarrow> 'w \<Rightarrow> 'w) option \<Rightarrow> ('tag, 'w) FakeUpdater \<Rightarrow> ('tag, 'w) FakeUpdater" where
  "FakeUpdater_SyncCalls stub fake = fake\<lparr>fu_sync := (fu_sync fake)\<lparr>fp_stub := stub\<rparr>\<rparr>"

definition FakeUpdater_Syncing :: "('tag, 'w) FakeUpdater \<Rightarrow> 'w \<Rightarrow> bool \<times> ('tag, 'w) FakeUpdater \<times> 'w" where
  "FakeUpdater_Syncing fake w =
     (let fake' = FakeUpdater_recordInvocation ''Syncing'' [] (fake\<lparr>fu_syncing := fm_record () (fu_syncing fake)\<rparr>);
          (result1, w') = fm_answer () (fu_syncing fake) w
      in (result1, fake', w'))"

definition FakeUpdater_SyncingCallCount :: "('tag, 'w) FakeUpdater \<Rightarrow> int" where
  "FakeUpdater_SyncingCallCount fake = int (length (fm_argsForCall (fu_syncing fake)))"

definition FakeUpdater_SyncingCalls :: "(unit \<Rightarrow> 'w \<Rightarrow> bool \<times> 'w) option \<Rightarrow> ('tag, 'w) FakeUpdater \<Rightarrow> ('tag, 'w) FakeUpdater" where
  "FakeUpdater_SyncingCalls stub fake = fake\<lparr>fu_syncing := fm_setStub stub (fu_syncing fake)\<rparr>"

definition FakeUpdater_SyncingReturns :: "bool \<Rightarrow> ('tag, 'w) FakeUpdater \<Rightarrow> ('tag, 'w) FakeUpdater" where
  "FakeUpdater_SyncingReturns result1 fake = fake\<lparr>fu_syncing := fm_setReturns result1 (fu_syncing fake)\<rparr>"

definition FakeUpdater_SyncingReturnsOnCall :: "int \<Rightarrow> bool \<Rightarrow> ('tag, 'w) FakeUpdater \<Rightarrow> ('tag, 'w) FakeUpdater" where
  "FakeUpdater_SyncingReturnsOnCall i result1 fake = fake\<lparr>fu_syncing := fm_setReturnsOnCall i result1 (fu_syncing fake)\<rparr>"

section \<open>FakeMonitor\<close>

datatype ('sig, 'ready) monitor_arg = MonSignals 'sig | MonReady 'ready

record ('sig, 'ready, 'w) FakeMonitor =
  fo_run :: "('sig \<times> 'ready, go_error option, 'w) fake_method"
  fo_startWatching :: "(unit, 'w) fake_proc"
  fo_stopWatching :: "(unit, 'w) fake_proc"
  fo_invocations :: "('sig, 'ready) monitor_arg invocations"

definition FakeMonitor_recordInvocation :: "string \<Rightarrow> ('sig, 'ready) monitor_arg list \<Rightarrow> ('sig, 'ready, 'w) FakeMonitor \<Rightarrow> ('sig, 'ready, 'w) FakeMonitor" where
  "FakeMonitor_recordInvocation key args fake = fake\<lparr>fo_invocations := recordInvocation key args (fo_invocations fake)\<rparr>"

definition FakeMonitor_Invocations :: "('sig, 'ready, 'w) FakeMonitor \<Rightarrow> ('sig, 'ready) monitor_arg invocations" where
  "FakeMonitor_Invocations fake = copyInvocations (fo_invocations fake) gm_empty"

definition FakeMonitor_Run :: "'sig \<Rightarrow> 'ready \<Rightarrow> ('sig, 'ready, 'w) FakeMonitor \<Rightarrow> 'w \<Rightarrow> go_error option \<times> ('sig, 'ready, 'w) FakeMonitor \<times> 'w" where
  "FakeMonitor_Run arg1 arg2 fake w =
     (let fake' = FakeMonitor_recordInvocation ''Run'' [MonSignals arg1, MonReady arg2] (fake\<lparr>fo_run := fm_record (arg1, arg2) (fo_run fake)\<rparr>);
          (result1, w') = fm_answer (arg1, arg2) (fo_run fake) w
      in (result1, fake', w'))"

definition FakeMonitor_RunCallCount :: "('sig, 'ready, 'w) FakeMonitor \<Rightarrow> int" where
  "FakeMonitor_RunCallCount fake = int (length (fm_argsForCall (fo_run fake)))"

definition FakeMonitor_RunCalls :: "('sig \<times> 'ready \<Rightarrow> 'w \<Rightarrow> go_error option \<times> 'w) option \<Rightarrow> ('sig, 'ready, 'w) FakeMonitor \<Rightarrow> ('sig, 'ready, 'w) FakeMonitor" where
  "FakeMonitor_RunCalls stub fake = fake\<lparr>fo_run := fm_setStub stub (fo_run fake)\<rparr>"

definition FakeMonitor_RunArgsForCall :: "int \<Rightarrow> ('sig, 'ready, 'w) FakeMonitor \<Rightarrow> ('sig \<times> 'ready) option" where
  "FakeMonitor_RunArgsForCall i fake = goIndex (fm_argsForCall (fo_run fake)) i"

definition FakeMonitor_RunReturns :: "go_error option \<Rightarrow> ('sig, 'ready, 'w) FakeMonitor \<Rightarrow> ('sig, 'ready, 'w) FakeMonitor" where
  "FakeMonitor_RunReturns result1 fake = fake\<lparr>fo_run := fm_setReturns result1 (fo_run fake)\<rparr>"

definition FakeMonitor_RunReturnsOnCall :: "int \<Rightarrow> go_error option \<Rightarrow> ('sig, 'ready, 'w) FakeMonitor \<Rightarrow> ('sig, 'ready, 'w) FakeMonitor" where
  "FakeMonitor_RunReturnsOnCall i result1 fake = fake\<lparr>fo_run := fm_setReturnsOnCall i result1 (fo_run fake)\<rparr>"

definition FakeMonitor_StartWatching :: "('sig, 'ready, 'w) FakeMonitor \<Rightarrow> 'w \<Rightarrow> ('sig, 'ready, 'w) FakeMonitor \<times> 'w" where
  "FakeMonitor_StartWatching fake w =
     (let fake' = FakeMonitor_recordInvocation ''StartWatching'' [] (fake\<lparr>fo_startWatching := fp_record () (fo_startWatching fake)\<rparr>)
      in (fake', fp_answer () (fo_startWatching fake) w))"

definition FakeMonitor_StartWatchingCallCount :: "('sig, 'ready, 'w) FakeMonitor \<Rightarrow> int" where
  "FakeMonitor_StartWatchingCallCount fake = int (length (fp_argsForCall (fo_startWatching fake)))"

definition FakeMonitor_StartWatchingCalls :: "(unit \<Rightarrow> 'w \<Rightarrow> 'w) option \<Rightarrow> ('sig, 'ready, 'w) FakeMonitor \<Rightarrow> ('sig, 'ready, 'w) FakeMonitor" where
  "FakeMonitor_StartWatchingCalls stub fake = fake\<lparr>fo_startWatching := (fo_startWatching fake)\<lparr>fp_stub := stub\<rparr>\<rparr>"

definition FakeMonitor_StopWatching :: "('sig, 'ready, 'w) FakeMonitor \<Rightarrow> 'w \<Rightarrow> ('sig, 'ready, 'w) FakeMonitor \<times> 'w" where
  "FakeMonitor_StopWatching fake w =
     (let fake' = FakeMonitor_recordInvocation ''StopWatching'' [] (fake\<lparr>fo_stopWatching := fp_record () (fo_stopWatching fake)\<rparr>)
      in (fake', fp_answer () (fo_stopWatching fake) w))"

definition FakeMonitor_StopWatchingCallCount :: "('sig, 'ready, 'w) FakeMonitor \<Rightarrow> int" where
  "FakeMonitor_StopWatchingCallCount fake = int (length (fp_argsForCall (fo_stopWatching fake)))"

definition FakeMonitor_StopWatchingCalls :: "(unit \<Rightarrow> 'w \<Rightarrow> 'w) option \<Rightarrow> ('sig, 'ready, 'w) FakeMonitor \<Rightarrow> ('sig, 'ready, 'w) FakeMonitor" where
  "FakeMonitor_StopWatchingCalls stub fake = fake\<lparr>fo_stopWatching := (fo_stopWatching fake)\<lparr>fp_stub := stub\<rparr>\<rparr>"

section \<open>FakeRouterConfigurer\<close>

text \<open>The first argument is a \<open>models.RoutingTable\<close>, a struct whose \<open>Entries\<close> is a map: what the fake
  keeps is a reference to the entries of the caller, so a test that reads a recorded call later sees
  the entries as they are then. The type \<open>'table\<close> stands for such a reference; the fake does no more
  with it than keep it and hand it to the stub.\<close>

datatype 'table configure_arg = ConfTable 'table | ConfDrain bool

record ('table, 'w) FakeRouterConfigurer =
  fc_configure :: "('table \<times> bool, go_error option, 'w) fake_method"
  fc_invocations :: "'table configure_arg invocations"

definition FakeRouterConfigurer_recordInvocation :: "string \<Rightarrow> 'table configure_arg list \<Rightarrow> ('table, 'w) FakeRouterConfigurer \<Rightarrow> ('table, 'w) FakeRouterConfigurer" where
  "FakeRouterConfigurer_recordInvocation key args fake = fake\<lparr>fc_invocations := recordInvocation key args (fc_invocations fake)\<rparr>"

definition FakeRouterConfigurer_Invocations :: "('table, 'w) FakeRouterConfigurer \<Rightarrow> 'table configure_arg invocations" where
  "FakeRouterConfigurer_Invocations fake = copyInvocations (fc_invocations fake) gm_empty"

definition FakeRouterConfigurer_Configure :: "'table \<Rightarrow> bool \<Rightarrow> ('table, 'w) FakeRouterConfigurer \<Rightarrow> 'w \<Rightarrow> go_error option \<times> ('table, 'w) FakeRouterConfigurer \<times> 'w" where
  "FakeRouterConfigurer_Configure arg1 arg2 fake w =
     (let fake' = FakeRouterConfigurer_recordInvocation ''Configure'' [ConfTable arg1, ConfDrain arg2] (fake\<lparr>fc_configure := fm_record (arg1, arg2) (fc_configure fake)\<rparr>);
          (result1, w') = fm_answer (arg1, arg2) (fc_configure fake) w
      in (result1, fake', w'))"

definition FakeRouterConfigurer_ConfigureCallCount :: "('table, 'w) FakeRouterConfigurer \<Rightarrow> int" where
  "FakeRouterConfigurer_ConfigureCallCount fake = int (length (fm_argsForCall (fc_configure fake)))"

definition FakeRouterConfigurer_ConfigureCalls :: "('table \<times> bool \<Rightarrow> 'w \<Rightarrow> go_error option \<times> 'w) option \<Rightarrow> ('table, 'w) FakeRouterConfigurer \<Rightarrow> ('table, 'w) FakeRouterConfigurer" where
  "FakeRouterConfigurer_ConfigureCalls stub fake = fake\<lparr>fc_configure := fm_setStub stub (fc_configure fake)\<rparr>"

definition FakeRouterConfigurer_ConfigureArgsForCall :: "int \<Rightarrow> ('table, 'w) FakeRouterConfigurer \<Rightarrow> ('table \<times> bool) option" where
  "FakeRouterConfigurer_ConfigureArgsForCall i fake = goIndex (fm_argsForCall (fc_configure fake)) i"

definition FakeRouterConfigurer_ConfigureReturns :: "go_error option \<Rightarrow> ('table, 'w) FakeRouterConfigurer \<Rightarrow> ('table, 'w) FakeRouterConfigurer" where
  "FakeRouterConfigurer_ConfigureReturns result1 fake = fake\<lparr>fc_configure := fm_setReturns result1 (fc_configure fake)\<rparr>"

definition FakeRouterConfigurer_ConfigureReturnsOnCall :: "int \<Rightarrow> go_error option \<Rightarrow> ('table, 'w) FakeRouterConfigurer \<Rightarrow> ('table, 'w) FakeRouterConfigurer" where
  "FakeRouterConfigurer_ConfigureReturnsOnCall i result1 fake = fake\<lparr>fc_configure := fm_setReturnsOnCall i result1 (fc_configure fake)\<rparr>"

section \<open>FakeConfigMarshaller\<close>

datatype marshal_arg = MarConf HAProxyConfig | MarTls BackendTLSConfig

record 'w FakeConfigMarshaller =
  fk_marshal :: "(HAProxyConfig \<times> BackendTLSConfig, string, 'w) fake_method"
  fk_invocations :: "marshal_arg invocations"

definition FakeConfigMarshaller_recordInvocation :: "string \<Rightarrow> marshal_arg list \<Rightarrow> 'w FakeConfigMarshaller \<Rightarrow> 'w FakeConfigMarshaller" where
  "FakeConfigMarshaller_recordInvocation key args fake = fake\<lparr>fk_invocations := recordInvocation key args (fk_invocations fake)\<rparr>"

definition FakeConfigMarshaller_Invocations :: "'w FakeConfigMarshaller \<Rightarrow> marshal_arg invocations" where
  "FakeConfigMarshaller_Invocations fake = copyInvocations (fk_invocations fake) gm_empty"

definition FakeConfigMarshaller_Marshal :: "HAProxyConfig \<Rightarrow> BackendTLSConfig \<Rightarrow> 'w FakeConfigMarshaller \<Rightarrow> 'w \<Rightarrow> string \<times> 'w FakeConfigMarshaller \<times> 'w" where
  "FakeConfigMarshaller_Marshal arg1 arg2 fake w =
     (let fake' = FakeConfigMarshaller_recordInvocation ''Marshal'' [MarConf arg1, MarTls arg2] (fake\<lparr>fk_marshal := fm_record (arg1, arg2) (fk_marshal fake)\<rparr>);
          (result1, w') = fm_answer (arg1, arg2) (fk_marshal fake) w
      in (result1, fake', w'))"

definition FakeConfigMarshaller_MarshalCallCount :: "'w FakeConfigMarshaller \<Rightarrow> int" where
  "FakeConfigMarshaller_MarshalCallCount fake = int (length (fm_argsForCall (fk_marshal fake)))"

definition FakeConfigMarshaller_MarshalCalls :: "(HAProxyConfig \<times> BackendTLSConfig \<Rightarrow> 'w \<Rightarrow> string \<times> 'w) option \<Rightarrow> 'w FakeConfigMarshaller \<Rightarrow> 'w FakeConfigMarshaller" where
  "FakeConfigMarshaller_MarshalCalls stub fake = fake\<lparr>fk_marshal := fm_setStub stub (fk_marshal fake)\<rparr>"

definition FakeConfigMarshaller_MarshalArgsForCall :: "int \<Rightarrow> 'w FakeConfigMarshaller \<Rightarrow> (HAProxyConfig \<times> BackendTLSConfig) option" where
  "FakeConfigMarshaller_MarshalArgsForCall i fake = goIndex (fm_argsForCall (fk_marshal fake)) i"

definition FakeConfigMarshaller_MarshalReturns :: "string \<Rightarrow> 'w FakeConfigMarshaller \<Rightarrow> 'w FakeConfigMarshaller" where
  "FakeConfigMarshaller_MarshalReturns result1 fake = fake\<lparr>fk_marshal := fm_setReturns result1 (fk_marshal fake)\<rparr>"

definition FakeConfigMarshaller_MarshalReturnsOnCall :: "int \<Rightarrow> string \<Rightarrow> 'w FakeConfigMarshaller \<Rightarrow> 'w FakeConfigMarshaller" where
  "FakeConfigMarshaller_MarshalReturnsOnCall i result1 fake = fake\<lparr>fk_marshal := fm_setReturnsOnCall i result1 (fk_marshal fake)\<rparr>"

section \<open>FakeScriptRunner\<close>

record 'w FakeScriptRunner =
  fs_run :: "(bool, go_error option, 'w) fake_method"
  fs_invocations :: "bool invocations"

definition FakeScriptRunner_recordInvocation :: "string \<Rightarrow> bool list \<Rightarrow> 'w FakeScriptRunner \<Rightarrow> 'w FakeScriptRunner" where
  "FakeScriptRunner_recordInvocation key args fake = fake\<lparr>fs_invocations := recordInvocation key args (fs_invocations fake)\<rparr>"

definition FakeScriptRunner_Invocations :: "'w FakeScriptRunner \<Rightarrow> bool invocations" where
  "FakeScriptRunner_Invocations fake = copyInvocations (fs_invocations fake) gm_empty"

definition FakeScriptRunner_Run :: "bool \<Rightarrow> 'w FakeScriptRunner \<Rightarrow> 'w \<Rightarrow> go_error option \<times> 'w FakeScriptRunner \<times> 'w" where
  "FakeScriptRunner_Run arg1 fake w =
     (let fake' = FakeScriptRunner_recordInvocation ''Run'' [arg1] (fake\<lparr>fs_run := fm_record arg1 (fs_run fake)\<rparr>);
          (result1, w') = fm_answer arg1 (fs_run fake) w
      in (result1, fake', w'))"

definition FakeScriptRunner_RunCallCount :: "'w FakeScriptRunner \<Rightarrow> int" where
  "FakeScriptRunner_RunCallCount fake = int (length (fm_argsForCall (fs_run fake)))"

definition FakeScriptRunner_RunCalls :: "(bool \<Rightarrow> 'w \<Rightarrow> go_error option \<times> 'w) option \<Rightarrow> 'w FakeScriptRunner \<Rightarrow> 'w FakeScriptRunner" where
  "FakeScriptRunner_RunCalls stub fake = fake\<lparr>fs_run := fm_setStub stub (fs_run fake)\<rparr>"

definition FakeScriptRunner_RunArgsForCall :: "int \<Rightarrow> 'w FakeScriptRunner \<Rightarrow> (bool) option" where
  "FakeScriptRunner_RunArgsForCall i fake = goIndex (fm_argsForCall (fs_run fake)) i"

definition FakeScriptRunner_RunReturns :: "go_error option \<Rightarrow> 'w FakeScriptRunner \<Rightarrow> 'w FakeScriptRunner" where
  "FakeScriptRunner_RunReturns result1 fake = fake\<lparr>fs_run := fm_setReturns result1 (fs_run fake)\<rparr>"

definition FakeScriptRunner_RunReturnsOnCall :: "int \<Rightarrow> go_error option \<Rightarrow> 'w FakeScriptRunner \<Rightarrow> 'w FakeScriptRunner" where
  "FakeScriptRunner_RunReturnsOnCall i result1 fake = fake\<lparr>fs_run := fm_setReturnsOnCall i result1 (fs_run fake)\<rparr>"

section \<open>FakeHaproxyClient\<close>

record 'w FakeHaproxyClient =
  fh_getStats :: "(unit, HaproxyStats, 'w) fake_method"
  fh_invocations :: "unit invocations"

definition FakeHaproxyClient_recordInvocation :: "string \<Rightarrow> unit list \<Rightarrow> 'w FakeHaproxyClient \<Rightarrow> 'w FakeHaproxyClient" where
  "FakeHaproxyClient_recordInvocation key args fake = fake\<lparr>fh_invocations := recordInvocation key args (fh_invocations fake)\<rparr>"

definition FakeHaproxyClient_Invocations :: "'w FakeHaproxyClient \<Rightarrow> unit invocations" where
  "FakeHaproxyClient_Invocations fake = copyInvocations (fh_invocations fake) gm_empty"

definition FakeHaproxyClient_GetStats :: "'w FakeHaproxyClient \<Rightarrow> 'w \<Rightarrow> HaproxyStats \<times> 'w FakeHaproxyClient \<times> 'w" where
  "FakeHaproxyClient_GetStats fake w =
     (let fake' = FakeHaproxyClient_recordInvocation ''GetStats'' [] (fake\<lparr>fh_getStats := fm_record () (fh_getStats fake)\<rparr>);
          (result1, w') = fm_answer () (fh_getStats fake) w
      in (result1, fake', w'))"

definition FakeHaproxyClient_GetStatsCallCount :: "'w FakeHaproxyClient \<Rightarrow> int" where
  "FakeHaproxyClient_GetStatsCallCount fake = int (length (fm_argsForCall (fh_getStats fake)))"

definition FakeHaproxyClient_GetStatsCalls :: "(unit \<Rightarrow> 'w \<Rightarrow> HaproxyStats \<times> 'w) option \<Rightarrow> 'w FakeHaproxyClient \<Rightarrow> 'w FakeHaproxyClient" where
  "FakeHaproxyClient_GetStatsCalls stub fake = fake\<lparr>fh_getStats := fm_setStub stub (fh_getStats fake)\<rparr>"

definition FakeHaproxyClient_GetStatsReturns :: "HaproxyStats \<Rightarrow> 'w FakeHaproxyClient \<Rightarrow> 'w FakeHaproxyClient" where
  "FakeHaproxyClient_GetStatsReturns result1 fake = fake\<lparr>fh_getStats := fm_setReturns result1 (fh_getStats fake)\<rparr>"

definition FakeHaproxyClient_GetStatsReturnsOnCall :: "int \<Rightarrow> HaproxyStats \<Rightarrow> 'w FakeHaproxyClient \<Rightarrow> 'w FakeHaproxyClient" where
  "FakeHaproxyClient_GetStatsReturnsOnCall i result1 fake = fake\<lparr>fh_getStats := fm_setReturnsOnCall i result1 (fh_getStats fake)\<rparr>"

section \<open>FakeMetricsEmitter\<close>

record 'w FakeMetricsEmitter =
  fe_emit :: "(MetricsReport option, 'w) fake_proc"

definition FakeMetricsEmitter_Emit :: "MetricsReport option \<Rightarrow> 'w FakeMetricsEmitter \<Rightarrow> 'w \<Rightarrow> 'w FakeMetricsEmitter \<times> 'w" where
  "FakeMetricsEmitter_Emit arg1 fake w =
     (let fake' = fake\<lparr>fe_emit := fp_record arg1 (fe_emit fake)\<rparr>
      in (fake', fp_answer arg1 (fe_emit fake) w))"

definition FakeMetricsEmitter_EmitCallCount :: "'w FakeMetricsEmitter \<Rightarrow> int" where
  "FakeMetricsEmitter_EmitCallCount fake = int (length (fp_argsForCall (fe_emit fake)))"

definition FakeMetricsEmitter_EmitArgsForCall :: "int \<Rightarrow> 'w FakeMetricsEmitter \<Rightarrow> (MetricsReport option) option" where
  "FakeMetricsEmitter_EmitArgsForCall i fake = goIndex (fp_argsForCall (fe_emit fake)) i"

section \<open>What a fake promises\<close>

text \<open>What a test does with a method of a fake, and what the fake owes it, from the history of the
  test alone (newest first).\<close>

datatype ('a, 'r, 'w) fake_op =
    OpCall 'a
  | OpCalls "('a \<Rightarrow> 'w \<Rightarrow> 'r \<times> 'w) option"
  | OpReturns 'r
  | OpReturnsOnCall int 'r

fun stub_of :: "('a, 'r, 'w) fake_op list \<Rightarrow> ('a \<Rightarrow> 'w \<Rightarrow> 'r \<times> 'w) option" where
  "stub_of [] = None"
| "stub_of (OpCall a # past) = stub_of past"
| "stub_of (OpCalls stub # past) = stub"
| "stub_of (OpReturns r # past) = None"
| "stub_of (OpReturnsOnCall i r # past) = None"

fun result_for :: "int \<Rightarrow> ('a, 'r, 'w) fake_op list \<Rightarrow> 'r option" where
  "result_for n [] = None"
| "result_for n (OpReturnsOnCall i r # past) = (if i = n then Some r else result_for n past)"
| "result_for n (_ # past) = result_for n past"

fun default_result :: "'r \<Rightarrow> ('a, 'r, 'w) fake_op list \<Rightarrow> 'r" where
  "default_result zero [] = zero"
| "default_result zero (OpReturns r # past) = r"
| "default_result zero (_ # past) = default_result zero past"

fun call_args :: "('a, 'r, 'w) fake_op list \<Rightarrow> 'a list" where
  "call_args [] = []"
| "call_args (OpCall a # past) = call_args past @ [a]"
| "call_args (_ # past) = call_args past"

definition owed :: "'r \<Rightarrow> 'a \<Rightarrow> ('a, 'r, 'w) fake_op list \<Rightarrow> 'w \<Rightarrow> 'r \<times> 'w" where
  "owed zero a past w =
     (case stub_of past of
        Some stub \<Rightarrow> stub a w
      | None \<Rightarrow> (case result_for (int (length (call_args past))) past of
                   Some r \<Rightarrow> (r, w)
                 | None \<Rightarrow> (default_result zero past, w)))"

text \<open>The contract of a method of a fake, over the fields it keeps.\<close>

locale counterfeit =
  fixes fields :: "'f \<Rightarrow> ('a, 'r, 'w) fake_method"
    and call :: "'a \<Rightarrow> 'f \<Rightarrow> 'w \<Rightarrow> 'r \<times> 'f \<times> 'w"
    and setStub :: "('a \<Rightarrow> 'w \<Rightarrow> 'r \<times> 'w) option \<Rightarrow> 'f \<Rightarrow> 'f"
    and setReturns :: "'r \<Rightarrow> 'f \<Rightarrow> 'f"
    and setReturnsOnCall :: "int \<Rightarrow> 'r \<Rightarrow> 'f \<Rightarrow> 'f"
    and callCount :: "'f \<Rightarrow> int"
  assumes fields_call: "fields (fst (snd (call a f w))) = fm_record a (fields f)"
    and answer_call: "fst (call a f w) = fst (fm_answer a (fields f) w)"
    and world_call: "snd (snd (call a f w)) = snd (fm_answer a (fields f) w)"
    and fields_setStub: "fields (setStub stub f) = fm_setStub stub (fields f)"
    and fields_setReturns: "fields (setReturns r f) = fm_setReturns r (fields f)"
    and fields_setReturnsOnCall: "fields (setReturnsOnCall i r f) = fm_setReturnsOnCall i r (fields f)"
    and callCount_fields: "callCount f = int (length (fm_argsForCall (fields f)))"
begin

text \<open>The fields hold what the history \<open>past\<close> says.\<close>

definition tells :: "'r \<Rightarrow> ('a, 'r, 'w) fake_op list \<Rightarrow> 'f \<Rightarrow> bool" where
  "tells zero past f \<longleftrightarrow> fm_stub (fields f) = stub_of past \<and> fm_argsForCall (fields f) = call_args past
     \<and> fm_returns (fields f) = default_result zero past
     \<and> (\<forall>n. gm_get (fm_returnsOnCall (fields f)) n = result_for n past)"

lemma tells_new: "fields f = fm_new zero \<Longrightarrow> tells zero [] f"
  by (simp add: tells_def fm_new_def)

lemma tells_setStub: "tells zero past f \<Longrightarrow> tells zero (OpCalls stub # past) (setStub stub f)"
  by (simp add: tells_def fields_setStub fm_setStub_def)

lemma tells_setReturns: "tells zero past f \<Longrightarrow> tells zero (OpReturns r # past) (setReturns r f)"
  by (simp add: tells_def fields_setReturns fm_setReturns_def)

lemma tells_setReturnsOnCall:
  "tells zero past f \<Longrightarrow> tells zero (OpReturnsOnCall i r # past) (setReturnsOnCall i r f)"
  by (auto simp: tells_def fields_setReturnsOnCall fm_setReturnsOnCall_def)

lemma tells_call: "tells zero past f \<Longrightarrow> tells zero (OpCall a # past) (fst (snd (call a f w)))"
  by (simp add: tells_def fields_call fm_record_def)

lemma call_owed:
  "tells zero past f \<Longrightarrow> fst (call a f w) = fst (owed zero a past w) \<and> snd (snd (call a f w)) = snd (owed zero a past w)"
  by (simp add: tells_def answer_call world_call fm_answer_def owed_def split: option.splits)

lemma count_told: "tells zero past f \<Longrightarrow> callCount f = int (length (call_args past))"
  by (simp add: tells_def callCount_fields)

end

text \<open>Every method with a result, of every fake, keeps the contract.\<close>

interpretation fkd: counterfeit fu_drain "\<lambda>_. FakeUpdater_Drain" FakeUpdater_DrainCalls
  FakeUpdater_DrainReturns FakeUpdater_DrainReturnsOnCall FakeUpdater_DrainCallCount
  by unfold_locales (auto simp: FakeUpdater_Drain_def FakeUpdater_DrainCalls_def FakeUpdater_DrainReturns_def
    FakeUpdater_DrainReturnsOnCall_def FakeUpdater_DrainCallCount_def FakeUpdater_recordInvocation_def Let_def split: prod.splits)

interpretation fkh: counterfeit fu_handleEvent FakeUpdater_HandleEvent FakeUpdater_HandleEventCalls
  FakeUpdater_HandleEventReturns FakeUpdater_HandleEventReturnsOnCall FakeUpdater_HandleEventCallCount
  by unfold_locales (auto simp: FakeUpdater_HandleEvent_def FakeUpdater_HandleEventCalls_def FakeUpdater_HandleEventReturns_def
    FakeUpdater_HandleEventReturnsOnCall_def FakeUpdater_HandleEventCallCount_def FakeUpdater_recordInvocation_def Let_def split: prod.splits)

interpretation fks: counterfeit fu_syncing "\<lambda>_. FakeUpdater_Syncing" FakeUpdater_SyncingCalls
  FakeUpdater_SyncingReturns FakeUpdater_SyncingReturnsOnCall FakeUpdater_SyncingCallCount
  by unfold_locales (auto simp: FakeUpdater_Syncing_def FakeUpdater_SyncingCalls_def FakeUpdater_SyncingReturns_def
    FakeUpdater_SyncingReturnsOnCall_def FakeUpdater_SyncingCallCount_def FakeUpdater_recordInvocation_def Let_def split: prod.splits)

interpretation fkm: counterfeit fo_run "\<lambda>(x, y). FakeMonitor_Run x y" FakeMonitor_RunCalls
  FakeMonitor_RunReturns FakeMonitor_RunReturnsOnCall FakeMonitor_RunCallCount
  by unfold_locales (auto simp: FakeMonitor_Run_def FakeMonitor_RunCalls_def FakeMonitor_RunReturns_def
    FakeMonitor_RunReturnsOnCall_def FakeMonitor_RunCallCount_def FakeMonitor_recordInvocation_def Let_def split: prod.splits)

interpretation fkc: counterfeit fc_configure "\<lambda>(x, y). FakeRouterConfigurer_Configure x y" FakeRouterConfigurer_ConfigureCalls
  FakeRouterConfigurer_ConfigureReturns FakeRouterConfigurer_ConfigureReturnsOnCall FakeRouterConfigurer_ConfigureCallCount
  by unfold_locales (auto simp: FakeRouterConfigurer_Configure_def FakeRouterConfigurer_ConfigureCalls_def FakeRouterConfigurer_ConfigureReturns_def
    FakeRouterConfigurer_ConfigureReturnsOnCall_def FakeRouterConfigurer_ConfigureCallCount_def FakeRouterConfigurer_recordInvocation_def Let_def split: prod.splits)

interpretation fkk: counterfeit fk_marshal "\<lambda>(x, y). FakeConfigMarshaller_Marshal x y" FakeConfigMarshaller_MarshalCalls
  FakeConfigMarshaller_MarshalReturns FakeConfigMarshaller_MarshalReturnsOnCall FakeConfigMarshaller_MarshalCallCount
  by unfold_locales (auto simp: FakeConfigMarshaller_Marshal_def FakeConfigMarshaller_MarshalCalls_def FakeConfigMarshaller_MarshalReturns_def
    FakeConfigMarshaller_MarshalReturnsOnCall_def FakeConfigMarshaller_MarshalCallCount_def FakeConfigMarshaller_recordInvocation_def Let_def split: prod.splits)

interpretation fkr: counterfeit fs_run FakeScriptRunner_Run FakeScriptRunner_RunCalls
  FakeScriptRunner_RunReturns FakeScriptRunner_RunReturnsOnCall FakeScriptRunner_RunCallCount
  by unfold_locales (auto simp: FakeScriptRunner_Run_def FakeScriptRunner_RunCalls_def FakeScriptRunner_RunReturns_def
    FakeScriptRunner_RunReturnsOnCall_def FakeScriptRunner_RunCallCount_def FakeScriptRunner_recordInvocation_def Let_def split: prod.splits)

interpretation fkg: counterfeit fh_getStats "\<lambda>_. FakeHaproxyClient_GetStats" FakeHaproxyClient_GetStatsCalls
  FakeHaproxyClient_GetStatsReturns FakeHaproxyClient_GetStatsReturnsOnCall FakeHaproxyClient_GetStatsCallCount
  by unfold_locales (auto simp: FakeHaproxyClient_GetStats_def FakeHaproxyClient_GetStatsCalls_def FakeHaproxyClient_GetStatsReturns_def
    FakeHaproxyClient_GetStatsReturnsOnCall_def FakeHaproxyClient_GetStatsCallCount_def FakeHaproxyClient_recordInvocation_def Let_def split: prod.splits)

text \<open>The fake configurer under test: its state after a history.\<close>

definition newFakeRouterConfigurer :: "('table, 'w) FakeRouterConfigurer" where
  "newFakeRouterConfigurer = \<lparr>fc_configure = fm_new None, fc_invocations = gm_empty\<rparr>"

fun fake_op_step ::
  "('table \<times> bool, go_error option, 'w) fake_op \<Rightarrow> ('table, 'w) FakeRouterConfigurer \<times> 'w
   \<Rightarrow> ('table, 'w) FakeRouterConfigurer \<times> 'w" where
  "fake_op_step (OpCall (t, d)) (f, w) = snd (FakeRouterConfigurer_Configure t d f w)"
| "fake_op_step (OpCalls stub) (f, w) = (FakeRouterConfigurer_ConfigureCalls stub f, w)"
| "fake_op_step (OpReturns r) (f, w) = (FakeRouterConfigurer_ConfigureReturns r f, w)"
| "fake_op_step (OpReturnsOnCall i r) (f, w) = (FakeRouterConfigurer_ConfigureReturnsOnCall i r f, w)"

fun fake_after ::
  "('table \<times> bool, go_error option, 'w) fake_op list \<Rightarrow> 'w \<Rightarrow> ('table, 'w) FakeRouterConfigurer \<times> 'w" where
  "fake_after [] w = (newFakeRouterConfigurer, w)"
| "fake_after (op # past) w = fake_op_step op (fake_after past w)"

definition invocation_list :: "('table \<times> bool) list \<Rightarrow> 'table configure_arg list list option" where
  "invocation_list cs = (if cs = [] then None else Some (map (\<lambda>(t, d). [ConfTable t, ConfDrain d]) cs))"

lemma gm_get_recordInvocation:
  "gm_get (recordInvocation key args m) k =
     (if k = key then Some ((case gm_get m key of None \<Rightarrow> [] | Some as \<Rightarrow> as) @ [args]) else gm_get m k)"
  by (auto simp: recordInvocation_def Let_def split: option.splits)

lemma gm_ok_recordInvocation: "gm_ok m \<Longrightarrow> gm_ok (recordInvocation key args m)"
  by (simp add: recordInvocation_def Let_def)

lemma gm_get_copyInvocations:
  "gm_ok m \<Longrightarrow> gm_get (copyInvocations m n) k = (case gm_get m k of Some v \<Rightarrow> Some v | None \<Rightarrow> gm_get n k)"
proof (induction m arbitrary: n)
  case (Cons p m)
  obtain key v where [simp]: "p = (key, v)" by force
  have "gm_ok m" "gm_get m key = None" using Cons.prems by (auto simp: gm_ok_def gm_get_def map_of_eq_None_iff)
  then show ?case using Cons.IH [of "gm_put key v n"] by (auto simp: gm_get_def gm_put_def update_conv' split: option.splits)
qed (simp add: gm_get_def)

lemma fake_after_inv:
  "fkc.tells None past (fst (fake_after past w)) \<and> gm_ok (fc_invocations (fst (fake_after past w)))
   \<and> gm_get (fc_invocations (fst (fake_after past w))) ''Configure'' = invocation_list (call_args past)"
proof (induction past)
  case Nil
  then show ?case
    by (simp add: fkc.tells_new newFakeRouterConfigurer_def invocation_list_def gm_empty_def gm_get_def gm_ok_def)
next
  case (Cons op past)
  obtain f v where f: "fake_after past w = (f, v)" by force
  show ?case
  proof (cases op)
    case (OpCall a)
    obtain t d where a: "a = (t, d)" by force
    have "fc_invocations (fst (snd (FakeRouterConfigurer_Configure t d f v))) =
        recordInvocation ''Configure'' [ConfTable t, ConfDrain d] (fc_invocations f)"
      by (simp add: FakeRouterConfigurer_Configure_def FakeRouterConfigurer_recordInvocation_def Let_def split: prod.splits)
    then show ?thesis
      using Cons f OpCall a fkc.tells_call [of None past f "(t, d)" v]
      by (auto simp: gm_get_recordInvocation gm_ok_recordInvocation invocation_list_def split: option.splits)
  qed (use Cons f fkc.tells_setStub fkc.tells_setReturns fkc.tells_setReturnsOnCall in
        \<open>auto simp: FakeRouterConfigurer_ConfigureCalls_def FakeRouterConfigurer_ConfigureReturns_def
          FakeRouterConfigurer_ConfigureReturnsOnCall_def\<close>)
qed

text \<open>Whatever a test has done to the fake configurer, the next call is answered as the test is
  owed: by the stub it set last, if it set no result since; otherwise by the newest result for this
  call's number; otherwise by the newest default result, at first no error. The fake reports the
  number of calls, the arguments of each (and panics outside that range), and under its name all
  calls in order.\<close>

lemma fake_configurer_correct:
  "let (f, v) = fake_after past w; (err, f', v') = FakeRouterConfigurer_Configure t d f v in
   (err, v') = owed None (t, d) past v
   \<and> FakeRouterConfigurer_ConfigureCallCount f = int (length (call_args past))
   \<and> FakeRouterConfigurer_ConfigureArgsForCall i f = goIndex (call_args past) i
   \<and> gm_get (FakeRouterConfigurer_Invocations f) ''Configure'' = invocation_list (call_args past)
   \<and> call_args (OpCall (t, d) # past) = call_args past @ [(t, d)]
   \<and> (f', v') = fake_after (OpCall (t, d) # past) w"
proof -
  obtain f v where f: "fake_after past w = (f, v)" by force
  obtain err f' v' where r: "FakeRouterConfigurer_Configure t d f v = (err, f', v')" by (metis prod_cases3)
  have told: "fkc.tells None past f" and inv: "gm_ok (fc_invocations f)"
      "gm_get (fc_invocations f) ''Configure'' = invocation_list (call_args past)"
    using fake_after_inv [of past w] f by simp_all
  have "(err, v') = owed None (t, d) past v"
    using fkc.call_owed [OF told, of "(t, d)" v] r by (simp add: prod_eq_iff)
  moreover have "FakeRouterConfigurer_ConfigureArgsForCall i f = goIndex (call_args past) i"
    using told by (simp add: fkc.tells_def FakeRouterConfigurer_ConfigureArgsForCall_def)
  moreover have "gm_get (FakeRouterConfigurer_Invocations f) ''Configure'' = invocation_list (call_args past)"
    using inv gm_get_copyInvocations [OF inv(1), of gm_empty "''Configure''"]
    by (simp add: FakeRouterConfigurer_Invocations_def split: option.splits)
  ultimately show ?thesis using f r fkc.count_told [OF told] by simp
qed

section \<open>The mutexes of a fake\<close>

text \<open>
  A call of the fake takes the mutex of its method and, in \<open>recordInvocation\<close>, the mutex of the
  invocations; \<open>Invocations\<close> takes them in the other order, for reading. Two goroutines, one in
  each, as steps on two reader-writer locks.
\<close>

record rw_lock =
  rw_writer :: bool
  rw_readers :: nat

definition may_lock :: "rw_lock \<Rightarrow> bool" where "may_lock l \<longleftrightarrow> \<not> rw_writer l \<and> rw_readers l = 0"
definition may_rlock :: "rw_lock \<Rightarrow> bool" where "may_rlock l \<longleftrightarrow> \<not> rw_writer l"

datatype call_pc = CallStart | CallLocked | CallRecording | CallRecorded | CallDone
datatype inv_pc = InvStart | InvReading | InvBoth | InvDone

record fake_locks =
  lk_method :: rw_lock
  lk_invocations :: rw_lock
  lk_call :: call_pc
  lk_inv :: inv_pc

definition unlocked :: rw_lock where "unlocked = \<lparr>rw_writer = False, rw_readers = 0\<rparr>"

definition locks_init :: fake_locks where
  "locks_init = \<lparr>lk_method = unlocked, lk_invocations = unlocked, lk_call = CallStart, lk_inv = InvStart\<rparr>"

inductive lstep :: "fake_locks \<Rightarrow> fake_locks \<Rightarrow> bool" where
  call_lock: "lk_call s = CallStart \<Longrightarrow> may_lock (lk_method s) \<Longrightarrow>
    lstep s (s\<lparr>lk_method := (lk_method s)\<lparr>rw_writer := True\<rparr>, lk_call := CallLocked\<rparr>)"
| rec_lock: "lk_call s = CallLocked \<Longrightarrow> may_lock (lk_invocations s) \<Longrightarrow>
    lstep s (s\<lparr>lk_invocations := (lk_invocations s)\<lparr>rw_writer := True\<rparr>, lk_call := CallRecording\<rparr>)"
| rec_unlock: "lk_call s = CallRecording \<Longrightarrow>
    lstep s (s\<lparr>lk_invocations := (lk_invocations s)\<lparr>rw_writer := False\<rparr>, lk_call := CallRecorded\<rparr>)"
| call_unlock: "lk_call s = CallRecorded \<Longrightarrow>
    lstep s (s\<lparr>lk_method := (lk_method s)\<lparr>rw_writer := False\<rparr>, lk_call := CallDone\<rparr>)"
| inv_rlock: "lk_inv s = InvStart \<Longrightarrow> may_rlock (lk_invocations s) \<Longrightarrow>
    lstep s (s\<lparr>lk_invocations := (lk_invocations s)\<lparr>rw_readers := Suc (rw_readers (lk_invocations s))\<rparr>, lk_inv := InvReading\<rparr>)"
| method_rlock: "lk_inv s = InvReading \<Longrightarrow> may_rlock (lk_method s) \<Longrightarrow>
    lstep s (s\<lparr>lk_method := (lk_method s)\<lparr>rw_readers := Suc (rw_readers (lk_method s))\<rparr>, lk_inv := InvBoth\<rparr>)"
| inv_runlock: "lk_inv s = InvBoth \<Longrightarrow>
    lstep s (s\<lparr>lk_method := (lk_method s)\<lparr>rw_readers := rw_readers (lk_method s) - 1\<rparr>,
              lk_invocations := (lk_invocations s)\<lparr>rw_readers := rw_readers (lk_invocations s) - 1\<rparr>, lk_inv := InvDone\<rparr>)"

inductive_cases lstep_elim: "lstep s s'"

text \<open>(C40) A call of a fake and a concurrent call of its \<open>Invocations\<close> can deadlock: after one step of
  each, both wait for a mutex the other holds, and neither ever continues.\<close>

theorem fake_deadlock:
  "\<exists>s. lstep\<^sup>*\<^sup>* locks_init s \<and> lk_call s = CallLocked \<and> lk_inv s = InvReading \<and> (\<nexists>s'. lstep s s')"
proof -
  let ?s1 = "locks_init\<lparr>lk_method := unlocked\<lparr>rw_writer := True\<rparr>, lk_call := CallLocked\<rparr>"
  let ?s2 = "?s1\<lparr>lk_invocations := unlocked\<lparr>rw_readers := 1\<rparr>, lk_inv := InvReading\<rparr>"
  have "lstep locks_init ?s1"
    using call_lock [of locks_init] by (simp add: locks_init_def unlocked_def may_lock_def)
  moreover have "lstep ?s1 ?s2"
    using inv_rlock [of ?s1] by (simp add: locks_init_def unlocked_def may_rlock_def)
  moreover have "\<nexists>s'. lstep ?s2 s'"
    by (auto elim!: lstep_elim simp: locks_init_def unlocked_def may_lock_def may_rlock_def)
  ultimately show ?thesis by (intro exI [of _ ?s2]) auto
qed

end
