(* ===== verification/Test_Helpers.thy ===== *)
theory Test_Helpers
  imports Routing_Table Go_Text
begin

text \<open>
  The helpers of the tests, \<open>testutil/test_helpers.go\<close>. A failed expectation ends the test: a
  helper that only checks gives whether all its expectations hold, and one with a result gives
  \<open>None\<close> then. The addresses of the network interfaces, what \<open>net.ParseCIDR\<close> and \<open>To4\<close> make of
  their text, and the identifier of \<open>uuid.NewV4\<close> are arguments.
\<close>

section \<open>Addresses and names\<close>

type_synonym ipv4 = "nat \<times> nat \<times> nat \<times> nat"

definition IsLoopback :: "ipv4 \<Rightarrow> bool" where "IsLoopback ip \<longleftrightarrow> fst ip = 127"

definition ipv4_String :: "ipv4 \<Rightarrow> string" where
  "ipv4_String ip = (case ip of (a, b, c, d) \<Rightarrow>
     showNat a @ ''.'' @ showNat b @ ''.'' @ showNat c @ ''.'' @ showNat d)"

fun externalIPLoop :: "(string \<Rightarrow> ipv4 option) \<Rightarrow> string list \<Rightarrow> string" where
  "externalIPLoop to4 [] = ''''"
| "externalIPLoop to4 (addr # rest) =
     (case to4 addr of
        Some ip \<Rightarrow> if \<not> IsLoopback ip then ipv4_String ip else externalIPLoop to4 rest
      | None \<Rightarrow> externalIPLoop to4 rest)"

definition GetExternalIP :: "(string \<Rightarrow> ipv4 option) \<Rightarrow> go_error + string list \<Rightarrow> string option" where
  "GetExternalIP to4 interfaceAddrs =
     (case interfaceAddrs of
        Inl err \<Rightarrow> None
      | Inr addrs \<Rightarrow> Some (externalIPLoop to4 addrs))"

definition RandomFileName :: "go_error + string \<Rightarrow> string \<Rightarrow> string \<Rightarrow> string option" where
  "RandomFileName newV4 prefix suffix =
     (case newV4 of Inl err \<Rightarrow> None | Inr guid \<Rightarrow> Some (prefix @ guid @ suffix))"

lemma externalIPLoop_find:
  "externalIPLoop to4 addrs =
     (case find (\<lambda>ip. \<not> IsLoopback ip) (List.map_filter to4 addrs) of Some ip \<Rightarrow> ipv4_String ip | None \<Rightarrow> '''')"
  by (induction addrs) (auto simp: map_filter_simps split: option.splits)

section \<open>Comparing routes\<close>

definition backendServerDetailsMatches :: "'tag BackendServerDetails \<Rightarrow> 'tag BackendServerDetails \<Rightarrow> bool" where
  "backendServerDetailsMatches actualDetails expectedDetails \<longleftrightarrow>
     bd_ModificationTag actualDetails = bd_ModificationTag expectedDetails
     \<and> bd_TTL actualDetails = bd_TTL expectedDetails"

fun entryMatchesLoop ::
  "(BackendServerKey, 'tag BackendServerDetails) gomap \<Rightarrow> (BackendServerKey, 'tag BackendServerDetails) gomap \<Rightarrow> bool" where
  "entryMatchesLoop [] expected \<longleftrightarrow> True"
| "entryMatchesLoop ((key, details) # rest) expected \<longleftrightarrow>
     (case gm_get expected key of
        None \<Rightarrow> False
      | Some expectedDetails \<Rightarrow> backendServerDetailsMatches details expectedDetails \<and> entryMatchesLoop rest expected)"

definition RoutingTableEntryMatches :: "'tag RoutingTableEntry \<Rightarrow> 'tag RoutingTableEntry \<Rightarrow> bool" where
  "RoutingTableEntryMatches actualEntry expectedEntry \<longleftrightarrow>
     gm_len (Backends actualEntry) = gm_len (Backends expectedEntry)
     \<and> entryMatchesLoop (Backends actualEntry) (Backends expectedEntry)"

text \<open>What the helper looks at: all but the time of the last update.\<close>

definition tag_and_ttl :: "'tag BackendServerDetails \<Rightarrow> 'tag \<times> int" where
  "tag_and_ttl d = (bd_ModificationTag d, bd_TTL d)"

lemma backendServerDetailsMatches_iff: "backendServerDetailsMatches d e \<longleftrightarrow> tag_and_ttl d = tag_and_ttl e"
  by (auto simp: backendServerDetailsMatches_def tag_and_ttl_def)

lemma entryMatchesLoop_iff:
  "gm_ok actual \<Longrightarrow> entryMatchesLoop actual expected \<longleftrightarrow>
     (\<forall>key d. gm_get actual key = Some d \<longrightarrow>
        map_option tag_and_ttl (gm_get expected key) = Some (tag_and_ttl d))"
proof (induction actual)
  case (Cons p actual)
  obtain key d where p: "p = (key, d)" by force
  have ok: "gm_ok actual" "gm_get actual key = None"
    using Cons.prems p by (auto simp: gm_ok_def gm_get_def map_of_eq_None_iff)
  have get: "gm_get (p # actual) k = (if k = key then Some d else gm_get actual k)" for k
    by (simp add: p gm_get_def)
  show ?case
    using Cons.IH [OF ok(1)] ok(2)
    by (auto simp: p get [unfolded p] backendServerDetailsMatches_iff split: option.splits if_splits)
qed (simp add: gm_get_def)

lemma subset_same_size:
  assumes "gm_ok m" "gm_ok n" "gm_len m = gm_len n" "dom (gm_get m) \<subseteq> dom (gm_get n)"
  shows "dom (gm_get m) = dom (gm_get n)"
  using assms by (metis card_subset_eq gm.finite_get gm.len_card)

text \<open>The helper compares exactly the keys and, for each, the tag and the time to live.\<close>

lemma entry_matches_iff:
  assumes "gm_ok (Backends a)" "gm_ok (Backends b)"
  shows "RoutingTableEntryMatches a b \<longleftrightarrow>
    (\<forall>key. map_option tag_and_ttl (gm_get (Backends a) key) = map_option tag_and_ttl (gm_get (Backends b) key))"
proof
  assume m: "RoutingTableEntryMatches a b"
  then have each: "map_option tag_and_ttl (gm_get (Backends b) key) = Some (tag_and_ttl d)"
    if "gm_get (Backends a) key = Some d" for key d
    using that entryMatchesLoop_iff [OF assms(1)] by (auto simp: RoutingTableEntryMatches_def)
  then have "dom (gm_get (Backends a)) \<subseteq> dom (gm_get (Backends b))" by fastforce
  then have dom: "dom (gm_get (Backends a)) = dom (gm_get (Backends b))"
    using subset_same_size [OF assms] m by (simp add: RoutingTableEntryMatches_def)
  have "map_option tag_and_ttl (gm_get (Backends a) key) = map_option tag_and_ttl (gm_get (Backends b) key)" for key
  proof (cases "gm_get (Backends a) key")
    case None
    then have "gm_get (Backends b) key = None" using dom by (metis domIff)
    then show ?thesis using None by simp
  qed (simp add: each)
  then show "\<forall>key. map_option tag_and_ttl (gm_get (Backends a) key) = map_option tag_and_ttl (gm_get (Backends b) key)"
    by blast
next
  assume eq: "\<forall>key. map_option tag_and_ttl (gm_get (Backends a) key) = map_option tag_and_ttl (gm_get (Backends b) key)"
  have "gm_get (Backends a) key = None \<longleftrightarrow> gm_get (Backends b) key = None" for key
    using eq [rule_format, of key] by (cases "gm_get (Backends a) key"; cases "gm_get (Backends b) key") simp_all
  then have "dom (gm_get (Backends a)) = dom (gm_get (Backends b))" by (simp add: dom_def)
  then have "gm_len (Backends a) = gm_len (Backends b)" using assms by (simp add: gm.len_card)
  moreover have "entryMatchesLoop (Backends a) (Backends b)"
    unfolding entryMatchesLoop_iff [OF assms(1)]
  proof (intro allI impI)
    fix key d
    assume "gm_get (Backends a) key = Some d"
    then show "map_option tag_and_ttl (gm_get (Backends b) key) = Some (tag_and_ttl d)"
      using eq [rule_format, of key] by simp
  qed
  ultimately show "RoutingTableEntryMatches a b" by (simp add: RoutingTableEntryMatches_def)
qed

lemma newEntryLoop_shape:
  assumes "\<forall>k. map_option tag_and_ttl (gm_get m k) = map_option tag_and_ttl (gm_get m' k)"
  shows "map_option tag_and_ttl (gm_get (newEntryLoop clk i infos m) key) =
    map_option tag_and_ttl (gm_get (newEntryLoop clk' j infos m') key)"
  using assms by (induction infos arbitrary: i j m m') (auto simp: Let_def tag_and_ttl_def)

lemma newEntryLoop_ok: "gm_ok m \<Longrightarrow> gm_ok (newEntryLoop clk i infos m)"
  by (induction infos arbitrary: i m) (simp_all add: Let_def)

text \<open>The helper the tests compare routes with accepts two routes exactly when they have the
  same backends with the same tags and times to live, in any order and whatever the times of the
  last update; so it is symmetric although it only loops over one of them, and routes made of the
  same backends at different times always match.\<close>

lemma entry_matches_correct:
  assumes "gm_ok (Backends a)" "gm_ok (Backends b)"
  shows "(RoutingTableEntryMatches a b \<longleftrightarrow>
      (\<forall>key. map_option tag_and_ttl (gm_get (Backends a) key) = map_option tag_and_ttl (gm_get (Backends b) key)))
    \<and> RoutingTableEntryMatches a b = RoutingTableEntryMatches b a
    \<and> RoutingTableEntryMatches (NewRoutingTableEntry clk i infos) (NewRoutingTableEntry clk' j infos)"
proof (intro conjI)
  show "RoutingTableEntryMatches a b = RoutingTableEntryMatches b a"
    unfolding entry_matches_iff [OF assms] entry_matches_iff [OF assms(2,1)] by metis
  show "RoutingTableEntryMatches (NewRoutingTableEntry clk i infos) (NewRoutingTableEntry clk' j infos)"
    by (subst entry_matches_iff) (auto simp: NewRoutingTableEntry_def newEntryLoop_ok intro: newEntryLoop_shape)
qed (rule entry_matches_iff [OF assms])

definition sample_entry :: "nat list \<Rightarrow> time \<Rightarrow> nat RoutingTableEntry" where
  "sample_entry ports now = \<lparr>Backends = map (\<lambda>p.
     (\<lparr>bk_Address = ''10.0.0.1'', bk_Port = of_nat p, bk_TLSPort = -1, bk_InstanceID = ''i''\<rparr>,
      \<lparr>bd_ModificationTag = p, bd_TTL = 60, bd_UpdatedTime = now\<rparr>)) ports\<rparr>"

lemma entry_matches_correct_witness:
  "RoutingTableEntryMatches (sample_entry [80, 81] 5) (sample_entry [81, 80] 7)
   \<and> \<not> RoutingTableEntryMatches (sample_entry [80] 5) (sample_entry [81, 80] 7)"
proof -
  have ok: "gm_ok (Backends (sample_entry [80, 81] 5))" "gm_ok (Backends (sample_entry [81, 80] 7))"
      "gm_ok (Backends (sample_entry [80] 5))"
    by (simp_all add: sample_entry_def gm_ok_def)
  have "RoutingTableEntryMatches (sample_entry [80, 81] 5) (sample_entry [81, 80] 7)"
    unfolding entry_matches_correct [OF ok(1,2), THEN conjunct1]
    by (simp add: sample_entry_def gm_get_def tag_and_ttl_def)
  moreover have "\<not> RoutingTableEntryMatches (sample_entry [80] 5) (sample_entry [81, 80] 7)"
    by (simp add: RoutingTableEntryMatches_def sample_entry_def gm_len_def)
  ultimately show ?thesis by blast
qed

end
