(* ===== verification/Spec2Isabelle.thy ===== *)
theory Spec2Isabelle
  imports Command_Line Child_Reaper Config_Reader Configurer_Concurrency Updater_Refinement
    Counterfeiter Test_Helpers
begin

text \<open>
  A verification development for the Cloud Foundry TCP router, a Go program that keeps an HAProxy
  configured with the TCP routes of the routing API.

  \<^bold>\<open>The program.\<close> \<open>main.go\<close> reads the configuration (\<open>config/\<close>), checks the ports of the router
  groups (\<open>router_group_port_checker/\<close>) and runs four processes. The syncer (\<open>syncer/\<close>) asks at
  intervals for a bulk sync. The watcher (\<open>watcher/\<close>) subscribes to the event stream of the routing
  API and passes events, sync requests and the drain signal to the updater
  (\<open>routing_table/updater.go\<close>). The updater owns the routing table (\<open>models/routing_table.go\<close>) and
  calls the configurer (\<open>configurer/\<close>) when it changes: the table becomes a configuration
  (\<open>models/haproxy_config.go\<close>), the configuration a text (\<open>config_marshaller.go\<close>), the text replaces
  the configuration file (\<open>haproxy_configurer.go\<close>, \<open>utils/fileutils.go\<close>), and a script reloads HAProxy
  (\<open>script_runner.go\<close>). The monitor (\<open>monitor/\<close>) ends the program when HAProxy dies; the metrics
  reporter (\<open>metrics_reporter/\<close>) reads HAProxy's statistics and emits totals.

  \<^bold>\<open>The theories\<close>, each with the definitions of its files under src/, in their order, and their
  lemmas:
  \<^item> \<open>Prelude\<close>: Go's types, 64-bit arithmetic, maps (association lists, so that iteration order is
    visible; interface \<open>gomap_iface\<close>) and \<open>sort.SliceStable\<close>. \<open>Go_Text\<close>: numbers, split, join, trim.
    \<open>Go_Regexp\<close>: matching by derivatives. \<open>Go_Csv\<close>: \<open>csv.Reader.ReadAll\<close> with its errors, and what it
    reads back from plain rows. \<open>File_Utils\<close>: the file system with a fault possible at
    every call, and \<open>utils/fileutils.go\<close>. \<open>Process_Runner\<close>: select loops and the signal contract of
    ifrit processes (\<open>ifrit_runner\<close>, \<open>usr2_deaf_runner\<close>).
  \<^item> \<open>Routing_Table\<close>: the table, its invariant \<open>wf_table\<close>, its abstraction \<open>lookup_backend\<close> and
    \<open>table_pairs\<close>, refinement of upsert, delete and prune, and the interface \<open>route_store\<close> the updater
    relies on.
  \<^item> \<open>Haproxy_Config\<close>: which routes and servers are configured, the host name grammar, what is
    logged. \<open>Config_Marshaller\<close>: the text as stanzas of lines, determinism, names, TLS policy.
    \<open>Config_Reader\<close>: a reader of such texts, independent of the marshaller, and the round trip: where
    the text sends a connection is where the routing table sends it.
  \<^item> \<open>Router_Config\<close>: which configuration files are accepted.
  \<^item> \<open>Monitor\<close>: the PID check and when the monitor ends the program.
  \<^item> \<open>Updater\<close>: events, bulk sync in its parts, pruning, draining; the interface
    \<open>router_configurer\<close>. \<open>Updater_Concurrency\<close>: the same operations as goroutines with the mutex, a
    step relation with invariants over all interleavings. \<open>Updater_Refinement\<close>: a goroutine that runs
    alone computes the operation and nothing else; and with the history of the events handled, a sync
    that no other overlaps caches exactly them and applies them at its end.
  \<^item> \<open>Haproxy_Configurer\<close>: \<open>Configure\<close> under faults, the script, the constructors; it provides
    \<open>router_configurer\<close>. \<open>Configurer_Concurrency\<close>: concurrent calls with \<open>configFileLock\<close>, which
    leave what the same calls one after the other leave.
  \<^item> \<open>Watcher\<close>, \<open>Syncer\<close>, \<open>Metrics\<close>, \<open>Port_Checker\<close>, \<open>Main_Program\<close>: the remaining processes and the
    start of the program. \<open>Child_Reaper\<close>: the goroutine of \<open>main.go\<close> that reaps children, with the
    kernel's children, the signals on their way and the wait for the reload script as a step relation;
    what \<open>CombinedOutput\<close> may return beside the reaper, and what that does to \<open>Configure\<close>.
  \<^item> \<open>Command_Line\<close>: the flags of \<open>main.go\<close> as the flag package parses them and the command line of
    \<open>testrunner/runner.go\<close>, a round trip. \<open>Test_Helpers\<close>: \<open>testutil/test_helpers.go\<close>.
  \<^item> \<open>Counterfeiter\<close>: the seven fakes the tests use, over one generic recorder with the interface
    \<open>counterfeit\<close>.
  \<^item> this theory: the way from an event, a sync or a drain to the file HAProxy was last reloaded with,
    which is the base file and the configuration of exactly the valid backends of the table
    (\<open>reloaded\<close>), and from there to the server a connection is sent to.

  \<^bold>\<open>How state and effects are modelled.\<close> A Go struct is a record, a returned error a value. Each
  operation is a function from state to state; the world holds files, faults, the monitor and the
  commands run. Every \<open>time.Now()\<close> is an argument or the next reading of a clock. Code outside src/
  is a parameter: the modification tag's \<open>SucceededBy\<close>, the routing API client, the token fetcher,
  the reload script, the YAML reader, the cryptographic library, \<open>Parse\<close> and \<open>Endpoints\<close> of
  port ranges. Loops are structural recursion, except: \<open>TrimSpace\<close>, whose fuel is the length of the
  text (each round takes a byte, \<open>trimLeft_done\<close>); the wait in \<open>Drain\<close>, a partial function whose
  value is \<open>None\<close> when it never ends (\<open>drain_correct\<close> says when); and the loops of the processes, which
  run over the list of what they receive.

  \<^bold>\<open>What does not hold\<close> and is proved so: servers that tie keep the random order of the map
  (\<open>server_order_not_determined\<close>); an instance identifier can add lines to the configuration
  (\<open>instance_id_injects_line\<close>); times to live wrap around (\<open>expired_bounds\<close>); a merge races with a
  prune (\<open>merge_races_with_prune\<close>); overlapping syncs lose events (\<open>overlapping_sync_loses_event\<close>);
  pruning does not reach HAProxy (\<open>pruned_backends_stay_configured\<close>); the metrics do not know the
  marshaller's names (\<open>marshalled_names_not_counted\<close>); the reaper leaves zombies
  (\<open>zombies_remain\<close>) and can take the exit status of the reload script, so that a reload that
  succeeded is reported as failed (\<open>reaped_reload_reported_failed\<close>); the monitor can watch during a
  reload (\<open>reload_while_watching\<close>); a fake and its \<open>Invocations\<close> can deadlock (\<open>fake_deadlock\<close>).

  \<^bold>\<open>Not modelled\<close>: logging except where it is the only trace of a decision; memory effects finer
  than the steps of \<open>Updater_Concurrency\<close> and \<open>Configurer_Concurrency\<close>; code outside src/: the
  grouping of processes by ifrit, the sending of metrics by dropsonde, the flags of the logger and
  of the debug server (a parameter of \<open>flagParse\<close>); the conversion of metrics to floating point;
  constructors that only store their arguments.
\<close>

section \<open>From the routing API to HAProxy\<close>

text \<open>The updater with the HAProxy configurer: \<open>api\<close> gives the services of the routing API and the
  token fetcher.\<close>

definition router_services ::
  "script \<Rightarrow> string \<Rightarrow> Configurer \<Rightarrow> ('tag, router_world) services \<Rightarrow> ('tag, router_world) services" where
  "router_services script path h api = api\<lparr>sv_Configure := Configure (with_script script path h)\<rparr>"

lemma router_services_configure [simp]:
  "sv_Configure (router_services script path h api) = Configure (with_script script path h)"
  by (simp add: router_services_def)

text \<open>A list of events, each handled without an error.\<close>

fun handled ::
  "('tag, 'w) services \<Rightarrow> 'tag TcpEvent list \<Rightarrow> 'tag updater \<times> 'w \<Rightarrow> 'tag updater \<times> 'w \<Rightarrow> bool" where
  "handled S [] st st' \<longleftrightarrow> st' = st"
| "handled S (e # es) st st' \<longleftrightarrow>
     (case HandleEvent S e st of (err, st1) \<Rightarrow> err = None \<and> handled S es st1 st')"

text \<open>The updater is idle and HAProxy was last reloaded for its table.\<close>

definition in_step :: "Configurer \<Rightarrow> 'tag updater \<times> router_world \<Rightarrow> bool" where
  "in_step h st \<longleftrightarrow> wf_table (up_routingTable (fst st)) \<and> \<not> up_syncing (fst st)
     \<and> reloaded h (snd st) (table_pairs (up_routingTable (fst st))) (up_isDraining (fst st))"

lemma in_step_current:
  "haproxy_setup h \<Longrightarrow> current (\<lambda>w P d. haproxy_setup h \<longrightarrow> reloaded h w P d) st \<longleftrightarrow> in_step h st"
  by (simp add: current_def in_step_def)

lemma handled_in_step:
  assumes "haproxy_setup h"
  shows "handled (router_services script path h api) es (u, w) st' \<Longrightarrow> in_step h (u, w) \<Longrightarrow> in_step h st'"
proof (induction es arbitrary: u w)
  case (Cons e es)
  let ?S = "router_services script path h api"
  obtain u1 w1 where r: "HandleEvent ?S e (u, w) = (None, u1, w1)" and rest: "handled ?S es (u1, w1) st'"
    using Cons.prems(1) by (auto split: prod.splits)
  have c: "wf_table (up_routingTable u)" "\<not> up_syncing u" using Cons.prems(2) by (simp_all add: in_step_def)
  have "known_action e"
    using r c by (cases "known_action e") (auto simp: HandleEvent_def handleEvent_unknown)
  then have "in_step h (u1, w1)"
    using hap.HandleEvent_current [of ?S script path h u w u1 e None w1] c r Cons.prems(2)
    by (simp add: in_step_current [OF assms])
  then show ?case by (rule Cons.IH [OF rest])
qed simp

text \<open>(C1) End to end: as long as events are handled without an error, HAProxy was last reloaded
  with exactly the backends of the routing table. After the events the reload script has last seen
  a configuration file that consists of the base file, as it is at that moment, and the marshalled
  configuration of exactly the table's valid routes and backends, with the environment that fits
  the drain flag; the events start from a state of that kind.\<close>

theorem events_reach_haproxy:
  assumes "haproxy_setup h"
    and "handled (router_services script path h api) es (u, w) (u', w')"
    and "wf_table (up_routingTable u)" "\<not> up_syncing u"
    and "reloaded h w (table_pairs (up_routingTable u)) (up_isDraining u)"
  shows "reloaded h w' (table_pairs (up_routingTable u')) (up_isDraining u')"
  using handled_in_step [OF assms(1,2)] assms(3-5) by (simp add: in_step_def)

text \<open>(C17) After a sync HAProxy is up to date as well, or the one call to the configurer that the
  sync makes at its end failed, which the sync ignores. The calls to the routing API and the token
  fetcher run no reload themselves.\<close>

theorem sync_reaches_haproxy:
  assumes "haproxy_setup h"
    and "Sync (router_services script path h api) (u, w) = (u', w')"
    and "fetchRoutes (router_services script path h api) w = (r, w1)" "rw_commands w1 = rw_commands w"
    and "wf_table (up_routingTable u)" "\<not> up_syncing u"
    and "reloaded h w (table_pairs (up_routingTable u)) (up_isDraining u)"
  shows "reloaded h w' (table_pairs (up_routingTable u')) (up_isDraining u')
    \<or> fst (Configure (with_script script path h) (up_routingTable u') (up_isDraining u) w1) \<noteq> None"
proof -
  let ?serves = "\<lambda>w P d. haproxy_setup h \<longrightarrow> reloaded h w P d"
  have api: "?serves w P d \<Longrightarrow> ?serves w1 P d" for P d using assms(4) by (simp add: reloaded_def)
  have "current ?serves (u, w)" using assms(5-7) by (simp add: current_def)
  from hap.Sync_current [OF router_services_configure this assms(3) api assms(2)]
  show ?thesis using assms(1) by (auto simp: current_def)
qed

text \<open>A drain that returns no error leaves HAProxy reloaded with the backends of the table and
  with \<open>IS_DRAINING=true\<close>, so that its health check fails, and the router draining.\<close>

lemma drain_reaches_haproxy:
  assumes "haproxy_setup h"
    and "Drain (router_services script path h api) others (\<lambda>_ st. st) (u, w) = Some (None, u', w')"
    and "wf_table (up_routingTable u)" "\<not> up_syncing u" "\<not> up_isDraining u"
  shows "reloaded h w' (table_pairs (up_routingTable u')) True \<and> up_isDraining u'"
  using hap.Drain_current [OF router_services_configure assms(3-5,2)] assms(1) by (auto simp: current_def)

text \<open>What a connection meets: the servers of the route for its port and server name, or else of the
  route for the port alone.\<close>

definition valid_backends ::
  "(RoutingKey \<times> BackendServerKey) set \<Rightarrow> u16 \<Rightarrow> string \<Rightarrow> BackendServerKey set" where
  "valid_backends P p sni =
     (let rk = \<lparr>rk_Port = p, rk_SniHostname = SniHostname sni\<rparr>
      in if valid_route rk then {b. (rk, b) \<in> P \<and> valid_server b} else {})"

definition answering :: "(RoutingKey \<times> BackendServerKey) set \<Rightarrow> u16 \<Rightarrow> string \<Rightarrow> BackendServerKey set" where
  "answering P p sni = (if valid_backends P p sni \<noteq> {} then valid_backends P p sni else valid_backends P p '''')"

lemma conf_of_route:
  assumes "conf_of conf P" and "rk = \<lparr>rk_Port = p, rk_SniHostname = h\<rparr>"
  shows "case conf_lookup conf p h of
     None \<Rightarrow> \<not> valid_route rk \<or> {b. (rk, b) \<in> P \<and> valid_server b} = {}
   | Some ss \<Rightarrow> valid_route rk \<and> set ss = {b. (rk, b) \<in> P \<and> valid_server b} \<and> ss \<noteq> [] \<and> distinct ss"
  using assms(1) [unfolded conf_of_def, THEN conjunct2, rule_format, of p h] assms(2)
  by (cases "valid_route rk"; cases "conf_lookup conf p h") (auto simp: Let_def)

lemma conf_of_words:
  assumes "conf_of conf P" and "\<And>k b. (k, b) \<in> P \<Longrightarrow> bk_TLSPort b > 0 \<Longrightarrow> is_word (bk_InstanceID b)"
  shows "word_conf conf"
  unfolding word_conf_def
proof (intro allI impI)
  fix p h ss
  let ?rk = "\<lparr>rk_Port = p, rk_SniHostname = h\<rparr>"
  assume "conf_lookup conf p h = Some ss"
  then have "valid_route ?rk" and ss: "set ss = {b. (?rk, b) \<in> P \<and> valid_server b}"
    using conf_of_route [OF assms(1) refl, of p h] by auto
  then show "word_host h \<and> list_all word_server ss"
    using assms(2) [of ?rk]
    by (auto simp: valid_route_def word_host_def list_all_iff word_server_def valid_server_def validDNSName_word)
qed

lemma conf_of_lookup:
  assumes "conf_of conf P"
  shows "(case conf_lookup conf p (SniHostname sni) of
     None \<Rightarrow> valid_backends P p sni = {}
   | Some ss \<Rightarrow> valid_backends P p sni \<noteq> {} \<and> set ss = valid_backends P p sni \<and> distinct ss)"
  using conf_of_route [OF assms refl, of p "SniHostname sni"]
  by (auto simp: valid_backends_def Let_def split: option.splits) (metis (mono_tags) list.set_intros(1) mem_Collect_eq neq_Nil_conv)

lemma reloaded_dispatch:
  assumes "reloaded h w P d" and "word_tls (hc_backendTlsCfg h)"
    and "\<forall>(k, b) \<in> P. bk_TLSPort b > 0 \<longrightarrow> is_word (bk_InstanceID b)"
  shows "\<exists>base text. cmd_files (last (rw_commands w)) (hc_baseConfigFilePath h) = Some base
    \<and> cmd_files (last (rw_commands w)) (hc_configFilePath h) = Some (base @ text)
    \<and> (\<forall>p sni. case dispatch (readConfig text) (showU16 p) sni of
         None \<Rightarrow> answering P p sni = {}
       | Some targets \<Rightarrow> answering P p sni \<noteq> {} \<and> (\<exists>ss. distinct ss \<and> set ss = answering P p sni
           \<and> targets = map (server_target (hc_backendTlsCfg h)) (filter (served (hc_backendTlsCfg h)) ss)))"
proof -
  let ?tls = "hc_backendTlsCfg h"
  obtain base conf where files: "cmd_files (last (rw_commands w)) (hc_baseConfigFilePath h) = Some base"
      "cmd_files (last (rw_commands w)) (hc_configFilePath h) = Some (base @ fst (Marshal conf ?tls))"
    and conf: "conf_of conf P"
    using assms(1) by (auto simp: reloaded_def)
  have "wf_conf conf" using conf by (simp add: conf_of_def)
  moreover have "word_conf conf" using conf_of_words [OF conf] assms(3) by blast
  ultimately have "case dispatch (readConfig (fst (Marshal conf ?tls))) (showU16 p) sni of
         None \<Rightarrow> answering P p sni = {}
       | Some targets \<Rightarrow> answering P p sni \<noteq> {} \<and> (\<exists>ss. distinct ss \<and> set ss = answering P p sni
           \<and> targets = map (server_target ?tls) (filter (served ?tls) ss))" for p sni
    using conf_of_lookup [OF conf, of p sni] conf_of_lookup [OF conf, of p "''''"] assms(2)
    by (auto simp: dispatch_Marshal answering_def split: option.splits)
  then show ?thesis using files by blast
qed


text \<open>(C34) A pruned backend is served on: when a backend has expired, \<open>PruneStaleRoutes\<close> takes it out
  of the table, but neither that nor the next sync that fetches exactly what is left reloads
  HAProxy, whose configuration still has all the backends of the table from before.\<close>

theorem pruned_backends_stay_configured:
  assumes "wf_table (up_routingTable u)" "mono (sv_clock S)"
    and "reloaded h w (table_pairs (up_routingTable u)) (up_isDraining u)"
    and "lookup_backend (up_routingTable u) k b = Some d" "Expired (sv_clock S (up_tick u)) (up_defaultTTL u) d"
    and "fetchRoutes S w = (Some (Inr ms), w1)" "rw_commands w1 = rw_commands w"
    and "mapping_pair ` set ms = table_pairs (up_routingTable (PruneStaleRoutes S u))"
    and "Sync S (PruneStaleRoutes S u, w) = (u', w')"
  shows "(k, b) \<in> table_pairs (up_routingTable u) \<and> (k, b) \<notin> table_pairs (up_routingTable u')
    \<and> reloaded h w' (table_pairs (up_routingTable u)) (up_isDraining u)"
proof -
  have "table_pairs (up_routingTable u') = table_pairs (up_routingTable (PruneStaleRoutes S u))" "w' = w1"
    using prune_then_sync [OF assms(1,2,6,8,9)] by simp_all
  moreover have "(k, b) \<notin> table_pairs (up_routingTable (PruneStaleRoutes S u))"
    by (rule prune_removes_expired [OF assms(1,2,4,5)])
  moreover have "reloaded h w1 (table_pairs (up_routingTable u)) (up_isDraining u)"
    using assms(3,7) by (simp add: reloaded_def)
  ultimately show ?thesis using assms(4) by (auto simp: table_pairs_def)
qed

section \<open>Examples\<close>

definition sample_script :: script where "sample_script path env files = (None, files)"

text \<open>The configurer as \<open>main.go\<close> makes it, and a routing API that answers with the mappings \<open>ms\<close>.\<close>

definition sample_haproxy :: Configurer where
  "sample_haproxy = with_script sample_script ''reload'' sample_configurer"

definition sample_api :: "nat TcpRouteMapping list \<Rightarrow> (nat, router_world) services" where
  "sample_api ms =
     \<lparr>sv_SucceededBy = (<), sv_clock = (\<lambda>n. int n * second), sv_Configure = (\<lambda>t f w. (None, w)),
      sv_FetchToken = (\<lambda>force w. (Inr ''token'', w)), sv_SetToken = (\<lambda>token w. w),
      sv_TcpRouteMappings = (\<lambda>w. (Inr ms, w))\<rparr>"

definition sample_router :: "nat TcpRouteMapping list \<Rightarrow> (nat, router_world) services" where
  "sample_router ms = router_services sample_script ''reload'' sample_configurer (sample_api ms)"

definition configured_world :: router_world where
  "configured_world = snd (Configure sample_haproxy sample_table False sample_world)"

definition loaded_updater :: "nat updater" where
  "loaded_updater = sample_updater\<lparr>up_routingTable := sample_table\<rparr>"

lemma loaded_updater_simps [simp]:
  "up_routingTable loaded_updater = sample_table" "\<not> up_syncing loaded_updater"
  "\<not> up_isDraining loaded_updater" "up_tick loaded_updater = 0"
  by (simp_all add: loaded_updater_def)

lemma sample_setup: "haproxy_setup sample_configurer"
  by (simp add: haproxy_setup_def sample_configurer_def)

lemma sample_router_simps [simp]:
  "sv_SucceededBy (sample_router ms) = (<)" "sv_clock (sample_router ms) = (\<lambda>n. int n * second)"
  "sv_Configure (sample_router ms) = Configure sample_haproxy"
  by (simp_all add: sample_router_def router_services_def sample_api_def sample_haproxy_def)

lemma sample_fetch: "fetchRoutes (sample_router ms) w = (Some (Inr ms), w)"
  by (simp add: fetchRoutes_def numeral_2_eq_2 sample_router_def router_services_def sample_api_def)

text \<open>In a world without faults that has both files every call succeeds and reloads once.\<close>

definition ready :: "router_world \<Rightarrow> bool" where
  "ready w \<longleftrightarrow> fs_faults w = [] \<and> fs_files w ''cfg'' \<noteq> None \<and> fs_files w ''base'' \<noteq> None"

lemma sample_configure_ok:
  assumes "ready w"
  shows "fst (Configure sample_haproxy t f w) = None" and "ready (snd (Configure sample_haproxy t f w))"
    and "length (rw_commands (snd (Configure sample_haproxy t f w))) = Suc (length (rw_commands w))"
proof -
  let ?h = sample_haproxy
  have paths: "hc_configFilePath ?h = ''cfg''" "hc_baseConfigFilePath ?h = ''base''"
    by (simp_all add: sample_haproxy_def sample_configurer_def)
  have run: "hc_scriptRunner ?h = Some (CommandRunner_Run sample_script (CreateCommandRunner ''reload''))"
    by (simp add: sample_haproxy_def)
  obtain old base where "fs_files w ''cfg'' = Some old" "fs_files w ''base'' = Some base"
    using assms by (auto simp: ready_def)
  then have "Configure ?h t f w = reload ?h f (w\<lparr>rw_monitor := StopWatching (rw_monitor w),
      fs_files := files_written ?h t (fs_files w)\<rparr>)"
    and "new_config ?h t (fs_files w) \<noteq> None"
    using assms paths by (auto simp: ready_def new_config_def intro!: Configure_no_faults [of w ?h old base])
  then show "fst (Configure ?h t f w) = None" "ready (snd (Configure ?h t f w))"
    "length (rw_commands (snd (Configure ?h t f w))) = Suc (length (rw_commands w))"
    using reload_command [OF run refl] assms paths by (simp_all add: sample_script_def ready_def files_written_def)
qed

lemma ready_sample_world: "ready sample_world"
  by (simp add: ready_def sample_world_def)

lemmas ready_configured_world = sample_configure_ok(2) [OF ready_sample_world, of sample_table False,
    folded configured_world_def]

lemma configured_world_reloaded: "reloaded sample_configurer configured_world (table_pairs sample_table) False"
  unfolding configured_world_def sample_haproxy_def
  using Configure_reloads [OF sample_setup wf_sample_table, of sample_script "''reload''" False sample_world]
    sample_configure_ok(1) [OF ready_sample_world, of sample_table False]
  by (simp add: sample_haproxy_def)

text \<open>An event for a new route, and what it does to the loaded updater.\<close>

definition new_route :: "nat TcpEvent" where
  "new_route = \<lparr>ev_TcpRouteMapping = sample_mapping 9 ''10.9.9.9'' 2, ev_Action = ''Upsert''\<rparr>"

definition new_pair :: "RoutingKey \<times> BackendServerKey" where
  "new_pair = mapping_pair (sample_mapping 9 ''10.9.9.9'' 2)"

lemma new_pair_new: "new_pair \<notin> table_pairs sample_table"
  by (auto simp: new_pair_def mapping_pair_def table_pairs_def lookup_sample_table toRoutingTableEntry_def
      sample_mapping_def sample_key_def)

lemma new_route_handled:
  obtains u' w' where "handled (sample_router ms) [new_route] (loaded_updater, configured_world) (u', w')"
    "table_pairs (up_routingTable u') = insert new_pair (table_pairs sample_table)"
    "length (rw_commands w') = Suc (length (rw_commands configured_world))"
proof -
  obtain t c where t: "event_table (<) 0 new_route sample_table = (t, c)" by force
  have pairs: "table_pairs t = insert new_pair (table_pairs sample_table)"
    using t upsert_pairs [of "(<)" 0 "fst (toRoutingTableEntry (sample_mapping 9 ''10.9.9.9'' 2))"
        "snd (toRoutingTableEntry (sample_mapping 9 ''10.9.9.9'' 2))" sample_table]
    by (simp add: event_table_def new_route_def new_pair_def mapping_pair_def case_prod_beta)
  have c: "c" using event_table_flag [OF wf_sample_table, of "(<)" 0 new_route] t pairs new_pair_new by auto
  have "known_action new_route" by (simp add: known_action_def new_route_def)
  from handleEvent_known [OF this, of "sample_router ms" loaded_updater configured_world]
  have "HandleEvent (sample_router ms) new_route (loaded_updater, configured_world) =
      (None, loaded_updater\<lparr>up_routingTable := t, up_tick := 1\<rparr>, snd (Configure sample_haproxy t False configured_world))"
    using t c sample_configure_ok(1) [OF ready_configured_world, of t False]
    by (simp add: HandleEvent_def configureIfChanged_def case_prod_beta)
  then have "handled (sample_router ms) [new_route] (loaded_updater, configured_world)
      (loaded_updater\<lparr>up_routingTable := t, up_tick := 1\<rparr>, snd (Configure sample_haproxy t False configured_world))"
    by simp
  then show thesis
    by (rule that) (use pairs sample_configure_ok(3) [OF ready_configured_world, of t False] in auto)
qed

theorem events_reach_haproxy_witness:
  "\<exists>u' w'. handled (sample_router []) [new_route] (loaded_updater, configured_world) (u', w')
     \<and> length (rw_commands w') = Suc (length (rw_commands configured_world))
     \<and> reloaded sample_configurer w' (insert new_pair (table_pairs sample_table)) (up_isDraining u')"
proof -
  obtain u' w' where h: "handled (sample_router []) [new_route] (loaded_updater, configured_world) (u', w')"
      "table_pairs (up_routingTable u') = insert new_pair (table_pairs sample_table)"
      "length (rw_commands w') = Suc (length (rw_commands configured_world))"
    by (rule new_route_handled)
  have "reloaded sample_configurer w' (table_pairs (up_routingTable u')) (up_isDraining u')"
    using events_reach_haproxy [OF sample_setup h(1) [unfolded sample_router_def]] wf_sample_table
      configured_world_reloaded by simp
  then show ?thesis using h by auto
qed

lemma new_pair_valid: "new_pair = (\<lparr>rk_Port = 9, rk_SniHostname = SniHostname ''''\<rparr>, snd new_pair)"
  "valid_server (snd new_pair)" "bk_TLSPort (snd new_pair) = -1"
proof -
  have "isValidDNSName ''10.9.9.9''"
    by (simp add: isValidDNSName_def validDNSNameRegexp_def dnsLabel_def dns_first_def dns_rest_def Let_def)
  then show "new_pair = (\<lparr>rk_Port = 9, rk_SniHostname = SniHostname ''''\<rparr>, snd new_pair)"
    "valid_server (snd new_pair)" "bk_TLSPort (snd new_pair) = -1"
    by (simp_all add: new_pair_def mapping_pair_def toRoutingTableEntry_def sample_mapping_def info_key_def
        serverKeyDetailsFromInfo_def valid_server_def)
qed

lemma answering_new_pair: "answering (insert new_pair (table_pairs sample_table)) 9 ''x.com'' = {snd new_pair}"
proof -
  have "(\<lparr>rk_Port = 9, rk_SniHostname = h\<rparr>, b) \<notin> table_pairs sample_table" for h b
    by (simp add: table_pairs_def lookup_sample_table sample_key_def)
  moreover have "(\<lparr>rk_Port = 9, rk_SniHostname = h\<rparr>, b) = new_pair \<longleftrightarrow> h = SniHostname '''' \<and> b = snd new_pair" for h b
    by (subst new_pair_valid(1)) auto
  ultimately show ?thesis
    using new_pair_valid(2) by (auto simp: answering_def valid_backends_def valid_route_def Let_def)
qed


theorem sync_reaches_haproxy_witness:
  "reloaded sample_configurer (snd (Sync (sample_router [sample_mapping 9 ''10.9.9.9'' 2])
     (loaded_updater, configured_world))) {new_pair} False
   \<and> new_pair \<notin> table_pairs sample_table"
proof -
  let ?ms = "[sample_mapping 9 ''10.9.9.9'' 2]"
  obtain u' w' where s: "Sync (sample_router ?ms) (loaded_updater, configured_world) = (u', w')" by force
  have d: "up_isDraining u' = up_isDraining loaded_updater"
  proof -
    obtain c u2 where m: "mergeRoutes (sample_router ?ms) ?ms (syncBegin loaded_updater) = (c, u2)" by force
    from Sync_fetched [OF sample_fetch m] s mergeRoutes_frame(3) [of "sample_router ?ms" ?ms "syncBegin loaded_updater"] m
    show ?thesis by auto
  qed
  have "fst new_pair \<noteq> sample_key" by (subst new_pair_valid(1)) (simp add: sample_key_def)
  then have p: "table_pairs (up_routingTable u') = {new_pair}"
    using Sync_spec [OF _ sample_fetch s] wf_sample_table
    by (auto simp: new_pair_def table_pairs_def lookup_sample_table split: if_splits)
  have "reloaded sample_configurer w' (table_pairs (up_routingTable u')) (up_isDraining u')"
    using sync_reaches_haproxy [OF sample_setup s [unfolded sample_router_def]
        sample_fetch [unfolded sample_router_def] refl]
      wf_sample_table configured_world_reloaded
      sample_configure_ok(1) [OF ready_configured_world, of "up_routingTable u'" False]
    by (auto simp: sample_haproxy_def)
  then show ?thesis using s d p new_pair_new by simp
qed

lemma drain_reaches_haproxy_witness:
  "\<exists>u' w'. Drain (sample_router []) id (\<lambda>_ st. st) (loaded_updater, sample_world) = Some (None, u', w')
     \<and> reloaded sample_configurer w' (table_pairs (up_routingTable u')) True"
proof -
  let ?c = "Configure sample_haproxy sample_table True sample_world"
  have "drainWait id (loaded_updater, sample_world) = Some (loaded_updater, sample_world)"
    using drainWait_after [of 0 id "(loaded_updater, sample_world)"] by simp
  then have d: "Drain (sample_router []) id (\<lambda>_ st. st) (loaded_updater, sample_world) =
      Some (None, loaded_updater\<lparr>up_isDraining := True\<rparr>, snd ?c)"
    using sample_configure_ok(1) [OF ready_sample_world, of sample_table True]
    by (simp add: Drain_def IsDraining_def case_prod_beta Let_def)
  show ?thesis
    using drain_reaches_haproxy [OF sample_setup d [unfolded sample_router_def]] d wf_sample_table by auto
qed

text \<open>A thousand readings of the clock later the backend of the loaded updater has expired.\<close>

definition stale_updater :: "nat updater" where
  "stale_updater = loaded_updater\<lparr>up_tick := 1000\<rparr>"

theorem pruned_backends_stay_configured_witness:
  "\<exists>u' w'. Sync (sample_router []) (PruneStaleRoutes (sample_router []) stale_updater, configured_world) = (u', w')
     \<and> (sample_key, info_key (sample_info 3)) \<notin> table_pairs (up_routingTable u')
     \<and> reloaded sample_configurer w' {(sample_key, info_key (sample_info 3))} False"
proof -
  let ?S = "sample_router []" and ?b = "info_key (sample_info 3)"
  have u: "up_routingTable stale_updater = sample_table" "\<not> up_isDraining stale_updater" "up_tick stale_updater = 1000"
    by (simp_all add: stale_updater_def)
  have pairs: "table_pairs sample_table = {(sample_key, ?b)}"
    by (auto simp: table_pairs_def lookup_sample_table)
  have m: "mono (sv_clock ?S)" by (auto simp: mono_def second_def)
  have expired: "Expired (sv_clock ?S (up_tick stale_updater)) (up_defaultTTL stale_updater)
      (info_details 0 (sample_info 3))"
    by (simp add: u Expired_def info_details_def serverKeyDetailsFromInfo_def sample_info_def neg_seconds_def
        wrap64_def second_def)
  have look: "lookup_backend (up_routingTable stale_updater) sample_key ?b = Some (info_details 0 (sample_info 3))"
    by (simp add: u lookup_sample_table)
  have wf: "wf_table (up_routingTable stale_updater)" by (simp add: u wf_sample_table)
  have left: "mapping_pair ` set [] = table_pairs (up_routingTable (PruneStaleRoutes ?S stale_updater))"
    using prune_subset [OF wf m] prune_removes_expired [OF wf m look expired] u pairs by auto
  obtain u' w' where s: "Sync ?S (PruneStaleRoutes ?S stale_updater, configured_world) = (u', w')" by force
  have "reloaded sample_configurer configured_world (table_pairs (up_routingTable stale_updater)) (up_isDraining stale_updater)"
    using configured_world_reloaded by (simp add: u)
  from pruned_backends_stay_configured [OF wf m this look expired sample_fetch refl left s]
  show ?thesis using s by (simp add: u pairs)
qed

end
